theory Spec2Isabelle
  imports Complex_Main "HOL-Library.Multiset"
begin

section \<open>Values, errors and arrays\<close>

text \<open>
  The module \<^verbatim>\<open>skimage/segmentation/trainable_segmentation.py\<close> computes a stack of
  per-pixel features at several smoothing scales and hands it to a classifier.
  Python exceptions are values of \<open>error\<close>; a function that can raise returns
  \<open>error + 'a\<close> with \<open>Inl\<close> for the exception.
\<close>

datatype error =
    ValueError
  | OverflowError
  | IndexError
  | AxisError
  | TypeError
  | AttributeError
  | ImportError
  | NotFittedError string
  | ClassifierError string
  | DanglingReference

text \<open>
  An n-dimensional array is its element type tag, its shape and its elements in row-major
  (C) order. The arrays of the feature pipeline hold 32-bit floats, label arrays hold
  integers.
\<close>

datatype dtype = Float32 | Float64 | Int64 | Bool | OtherDtype

record 'a ndarray =
  dtype :: dtype
  shape :: "nat list"
  data :: "'a list"

definition ndim :: "'a ndarray \<Rightarrow> nat" where
  "ndim a = length (shape a)"

definition well_formed :: "'a ndarray \<Rightarrow> bool" where
  "well_formed a = (length (data a) = prod_list (shape a))"

text \<open>Running a list of computations stops at the first exception.\<close>

fun sequence :: "(error + 'a) list \<Rightarrow> error + 'a list" where
  "sequence [] = Inr []"
| "sequence (Inl e # rs) = Inl e"
| "sequence (Inr x # rs) = (case sequence rs of Inl e \<Rightarrow> Inl e | Inr xs \<Rightarrow> Inr (x # xs))"

text \<open>
  Floating-point numbers are idealised as reals. The results of \<^verbatim>\<open>np.log2\<close> on a
  non-positive argument are not finite, so the values that the scale arithmetic passes
  around carry the three special cases of IEEE arithmetic.
\<close>

datatype npfloat = Finite real | PosInf | NegInf | NaN

definition np_log2 :: "real \<Rightarrow> npfloat" where
  "np_log2 x = (if 0 < x then Finite (log 2 x) else if x = 0 then NegInf else NaN)"

fun np_sub :: "npfloat \<Rightarrow> npfloat \<Rightarrow> npfloat" where
  "np_sub NaN _ = NaN"
| "np_sub _ NaN = NaN"
| "np_sub (Finite a) (Finite b) = Finite (a - b)"
| "np_sub (Finite a) PosInf = NegInf"
| "np_sub (Finite a) NegInf = PosInf"
| "np_sub PosInf PosInf = NaN"
| "np_sub PosInf _ = PosInf"
| "np_sub NegInf NegInf = NaN"
| "np_sub NegInf _ = NegInf"

fun np_add_real :: "npfloat \<Rightarrow> real \<Rightarrow> npfloat" where
  "np_add_real (Finite a) b = Finite (a + b)"
| "np_add_real x _ = x"

text \<open>
  Python's \<^verbatim>\<open>int(x)\<close> truncates towards zero, raises ValueError on NaN and
  OverflowError on an infinity.
\<close>

fun py_int :: "npfloat \<Rightarrow> error + int" where
  "py_int (Finite r) = Inr (if 0 \<le> r then \<lfloor>r\<rfloor> else \<lceil>r\<rceil>)"
| "py_int NaN = Inl ValueError"
| "py_int PosInf = Inl OverflowError"
| "py_int NegInf = Inl OverflowError"

section \<open>The scale sequence\<close>

text \<open>
  \<^verbatim>\<open>np.linspace(start, stop, num, endpoint=True)\<close>: \<open>num\<close> samples
  \<open>start + i * step\<close> with \<open>step = (stop - start) / (num - 1)\<close>, the last one
  overwritten with \<open>stop\<close> when there are at least two; a single sample is \<open>start\<close>.
\<close>

definition np_linspace :: "real \<Rightarrow> real \<Rightarrow> nat \<Rightarrow> real list" where
  "np_linspace start stop num =
     (let dv = num - 1;
          delta = stop - start;
          y = (if 0 < dv then map (\<lambda>i. real i * (delta / real dv) + start) [0..<num]
               else map (\<lambda>i. real i * delta + start) [0..<num])
      in if 1 < num then y[num - 1 := stop] else y)"

text \<open>
  \<^verbatim>\<open>np.logspace(start, stop, num, base, endpoint=True)\<close> raises ValueError for a
  negative number of samples and otherwise returns \<open>base ** linspace(start, stop, num)\<close>.
\<close>

definition np_logspace :: "real \<Rightarrow> real \<Rightarrow> int \<Rightarrow> real \<Rightarrow> error + real list" where
  "np_logspace start stop num base =
     (if num < 0 then Inl ValueError
      else Inr (map (\<lambda>y. base powr y) (np_linspace start stop (nat num))))"

text \<open>
  Lines 90 to 96 of \<^verbatim>\<open>_mutiscale_basic_features_singlechannel\<close>:
  \<^verbatim>\<open>sigmas = np.logspace(np.log2(sigma_min), np.log2(sigma_max),
      num=int(np.log2(sigma_max) - np.log2(sigma_min) + 1), base=2, endpoint=True)[::-1]\<close>.
  The source has no check of the bounds of its own. The conversion \<^verbatim>\<open>int(...)\<close>
  raises whenever one of the logarithms is not finite, so the last case below is
  never reached.
\<close>

definition sigmas :: "real \<Rightarrow> real \<Rightarrow> error + real list" where
  "sigmas sigma_min sigma_max =
     (case py_int (np_add_real (np_sub (np_log2 sigma_max) (np_log2 sigma_min)) 1) of
        Inl e \<Rightarrow> Inl e
      | Inr num \<Rightarrow>
          (case (np_log2 sigma_min, np_log2 sigma_max) of
             (Finite lo, Finite hi) \<Rightarrow>
               (case np_logspace lo hi num 2 of
                  Inl e \<Rightarrow> Inl e
                | Inr xs \<Rightarrow> Inr (rev xs))
           | _ \<Rightarrow> Inl ValueError))"



section \<open>The library functions the pipeline calls\<close>

text \<open>
  The filters of \<^verbatim>\<open>skimage.filters\<close>, the conversion \<^verbatim>\<open>img_as_float32\<close>
  and the finite differences of \<^verbatim>\<open>np.gradient\<close> are not part of the module.
  Their numerical results are parameters of the model: \<open>gradient B f ax\<close> is the array
  of differences of \<open>f\<close> along axis \<open>ax\<close>, \<open>eigvals_general B\<close> is the numerical
  eigenvalue solver for matrices other than 2 by 2: from the entries of the upper triangle
  of one symmetric matrix it computes the eigenvalues of that matrix, in any order.
\<close>

record backend =
  img_as_float32 :: "real ndarray \<Rightarrow> real ndarray"
  gaussian :: "real ndarray \<Rightarrow> real \<Rightarrow> real ndarray"
  sobel :: "real ndarray \<Rightarrow> real ndarray"
  gradient :: "real ndarray \<Rightarrow> nat \<Rightarrow> real ndarray"
  eigvals_general :: "real list \<Rightarrow> real list"

text \<open>
  The filters keep the shape of the array they are given; this is what the shape of the
  feature stack rests on.
\<close>

definition shape_preserving :: "backend \<Rightarrow> bool" where
  "shape_preserving B =
     ((\<forall>a. shape (img_as_float32 B a) = shape a) \<and>
      (\<forall>a s. shape (gaussian B a s) = shape a) \<and>
      (\<forall>a. shape (sobel B a) = shape a) \<and>
      (\<forall>a ax. shape (gradient B a ax) = shape a))"

text \<open>
  \<^verbatim>\<open>np.gradient(f)\<close> differentiates along every axis and raises ValueError when an
  axis has fewer than two elements; \<^verbatim>\<open>np.gradient(f, axis=ax)\<close> does the same for
  one axis and raises AxisError when the array has no such axis.
\<close>

definition np_gradient :: "backend \<Rightarrow> real ndarray \<Rightarrow> error + real ndarray list" where
  "np_gradient B f =
     (if \<exists>n \<in> set (shape f). n < 2 then Inl ValueError
      else Inr (map (gradient B f) [0..<ndim f]))"

definition np_gradient_axis :: "backend \<Rightarrow> real ndarray \<Rightarrow> nat \<Rightarrow> error + real ndarray" where
  "np_gradient_axis B f ax =
     (if ndim f \<le> ax then Inl AxisError
      else if shape f ! ax < 2 then Inl ValueError
      else Inr (gradient B f ax))"

section \<open>The eigenvalues of the Hessian\<close>

text \<open>
  Modelled from the spec: \<^verbatim>\<open>feature.hessian_matrix_eigvals\<close> is called by
  \<^verbatim>\<open>_texture_filter\<close> and is not in the module. The specification gives it as: from
  the entries of a symmetric \<open>k\<close> by \<open>k\<close> matrix per pixel, in the order
  (0,0), (0,1), ..., (k-1,k-1) of the pairs of axes, \<open>k\<close> arrays holding the eigenvalues
  of the matrix of each pixel, sorted ascending by value at every pixel on its own. For
  a 2 by 2 matrix of diagonal \<open>a\<close>, \<open>b\<close> and off-diagonal \<open>c\<close> the eigenvalues are
  the closed form \<open>(a+b)/2 \<plusminus> sqrt(((a-b)/2)^2 + c^2)\<close>. For other sizes the
  specification names no formula: the eigenvalues of one matrix are computed by the
  parameter \<open>general\<close>, and the model sorts them.
\<close>

definition eig2 :: "real \<Rightarrow> real \<Rightarrow> real \<Rightarrow> real list" where
  "eig2 a b c =
     [(a + b) / 2 - sqrt (((a - b) / 2)\<^sup>2 + c\<^sup>2), (a + b) / 2 + sqrt (((a - b) / 2)\<^sup>2 + c\<^sup>2)]"

text \<open>The values of a list of arrays at the pixel \<open>p\<close>.\<close>

definition pixel_entries :: "real ndarray list \<Rightarrow> nat \<Rightarrow> real list" where
  "pixel_entries arrays p = map (\<lambda>A. data A ! p) arrays"


definition hessian_matrix_eigvals ::
  "(real list \<Rightarrow> real list) \<Rightarrow> real ndarray list \<Rightarrow> real ndarray list" where
  "hessian_matrix_eigvals general H_elems =
     (case H_elems of
        [Hrr, Hrc, Hcc] \<Rightarrow>
          map (\<lambda>k. Hrr\<lparr>data := map (\<lambda>(a, c, b). eig2 a b c ! k)
                                  (zip (data Hrr) (zip (data Hrc) (data Hcc)))\<rparr>) [0, 1]
      | [] \<Rightarrow> []
      | H # Hs \<Rightarrow>
          map (\<lambda>k. H\<lparr>data := map (\<lambda>p. sort (general (pixel_entries (H # Hs) p)) ! k)
                                [0..<length (data H)]\<rparr>) [0..<ndim H])"

section \<open>Features of one channel at one scale\<close>

text \<open>\<^verbatim>\<open>combinations_with_replacement(range(n), 2)\<close>: the pairs \<open>(i, j)\<close> with \<open>i \<le> j < n\<close>.\<close>

definition combinations_with_replacement :: "nat \<Rightarrow> (nat \<times> nat) list" where
  "combinations_with_replacement n = concat (map (\<lambda>i. map (\<lambda>j. (i, j)) [i..<n]) [0..<n])"

text \<open>
  One entry of the Hessian: \<^verbatim>\<open>np.gradient(np.gradient(gaussian_filtered)[ax0], axis=ax1)\<close>.
  For a one-dimensional array \<^verbatim>\<open>np.gradient\<close> returns the array of differences
  itself, so \<^verbatim>\<open>[ax0]\<close> is a scalar, which has no axis to differentiate along.
\<close>

definition H_elem :: "backend \<Rightarrow> real ndarray \<Rightarrow> nat \<times> nat \<Rightarrow> error + real ndarray" where
  "H_elem B gaussian_filtered = (\<lambda>(ax0, ax1).
     case np_gradient B gaussian_filtered of
       Inl e \<Rightarrow> Inl e
     | Inr gs \<Rightarrow>
         if ndim gaussian_filtered = 1 then Inl AxisError
         else np_gradient_axis B (gs ! ax0) ax1)"

definition texture_filter :: "backend \<Rightarrow> real ndarray \<Rightarrow> error + real ndarray list" where
  "texture_filter B gaussian_filtered =
     (case sequence (map (H_elem B gaussian_filtered)
                      (combinations_with_replacement (ndim gaussian_filtered))) of
        Inl e \<Rightarrow> Inl e
      | Inr H_elems \<Rightarrow> Inr (hessian_matrix_eigvals (eigvals_general B) H_elems))"

definition singlescale_basic_features_singlechannel ::
  "backend \<Rightarrow> real ndarray \<Rightarrow> real \<Rightarrow> bool \<Rightarrow> bool \<Rightarrow> bool \<Rightarrow> error + real ndarray list" where
  "singlescale_basic_features_singlechannel B img sigma intensity edges texture =
     (let results = [];
          gaussian_filtered = gaussian B img sigma;
          results = (if intensity then results @ [gaussian_filtered] else results);
          results = (if edges then results @ [sobel B gaussian_filtered] else results)
      in if texture then
           (case texture_filter B gaussian_filtered of
              Inl e \<Rightarrow> Inl e
            | Inr eigvals \<Rightarrow> Inr (results @ eigvals))
         else Inr results)"


section \<open>Running the scales in parallel\<close>

text \<open>
  The tasks of one channel, one per scale, are handed to a pool of threads and finish in
  an order the program does not control. A run is described by a list of picks: at each
  step the pick, taken modulo the number of pending tasks, names the pending task that
  finishes next. Every list of picks is a run, and every order of completion is the run
  of some list of picks.
\<close>

function completion_order :: "nat list \<Rightarrow> 'a list \<Rightarrow> 'a list" where
  "completion_order picks [] = []"
| "completion_order picks (x # xs) =
     (let pending = x # xs;
          k = (case picks of [] \<Rightarrow> 0 | p # _ \<Rightarrow> p mod length pending)
      in pending ! k # completion_order (tl picks) (take k pending @ drop (Suc k) pending))"
  by pat_completeness auto
termination
  by (relation "measure (\<lambda>(picks, pending). length pending)") (auto split: list.splits)

text \<open>
  Both \<^verbatim>\<open>Executor.map\<close> and \<^verbatim>\<open>dask.compute\<close> return the results in the order of
  the tasks submitted: each result is kept with the index of its task, and the results
  are read by index.
\<close>

definition gather :: "nat list \<Rightarrow> 'b list \<Rightarrow> 'b list" where
  "gather picks tasks =
     map snd (sort_key fst (completion_order picks (zip [0..<length tasks] tasks)))"

text \<open>
  \<^verbatim>\<open>ThreadPoolExecutor(max_workers=num_workers)\<close> raises ValueError for a pool of no
  threads; \<^verbatim>\<open>list(ex.map(f, sigmas))\<close> reads the results in the order of the tasks
  and raises the exception of the first task, in that order, that failed.
\<close>

definition thread_pool_map ::
  "nat option \<Rightarrow> nat list \<Rightarrow> (error + 'b) list \<Rightarrow> error + 'b list" where
  "thread_pool_map num_workers picks tasks =
     (if num_workers = Some 0 then Inl ValueError else sequence (gather picks tasks))"

text \<open>
  \<^verbatim>\<open>dask.compute(*out_sigmas, num_workers=num_workers)\<close> raises the exception of the
  task that fails first in time and otherwise returns the results in the order of its
  arguments. A worker count of zero selects the default pool.
\<close>

definition dask_compute ::
  "nat option \<Rightarrow> nat list \<Rightarrow> (error + 'b) list \<Rightarrow> error + 'b list" where
  "dask_compute num_workers picks tasks =
     (case sequence (completion_order picks tasks) of
        Inl e \<Rightarrow> Inl e
      | Inr _ \<Rightarrow> sequence (gather picks tasks))"

section \<open>Features at all scales\<close>

text \<open>
  \<^verbatim>\<open>_mutiscale_basic_features_singlechannel\<close>. The module-level flag \<^verbatim>\<open>has_dask\<close>,
  set when the module is imported, and the picks of the run are parameters.
\<close>

definition mutiscale_basic_features_singlechannel ::
  "backend \<Rightarrow> bool \<Rightarrow> nat list \<Rightarrow> real ndarray \<Rightarrow> bool \<Rightarrow> bool \<Rightarrow> bool \<Rightarrow> real \<Rightarrow> real \<Rightarrow>
   nat option \<Rightarrow> error + real ndarray list" where
  "mutiscale_basic_features_singlechannel B has_dask picks img intensity edges texture
       sigma_min sigma_max num_workers =
     (let img = img_as_float32 B img
      in case sigmas sigma_min sigma_max of
           Inl e \<Rightarrow> Inl e
         | Inr scales \<Rightarrow>
             (let out_sigmas =
                    map (\<lambda>s. singlescale_basic_features_singlechannel B img s
                                intensity edges texture) scales
              in case (if has_dask then dask_compute num_workers picks out_sigmas
                       else thread_pool_map num_workers picks out_sigmas) of
                   Inl e \<Rightarrow> Inl e
                 | Inr out_sigmas \<Rightarrow> Inr (concat out_sigmas)))"

text \<open>\<^verbatim>\<open>image[..., dim]\<close>: the elements of \<open>img\<close> whose last index is \<open>ch\<close>.\<close>

definition channel :: "'a ndarray \<Rightarrow> nat \<Rightarrow> 'a ndarray" where
  "channel img ch =
     (let C = last (shape img)
      in \<lparr>dtype = dtype img,
          shape = butlast (shape img),
          data = map (\<lambda>i. data img ! (i * C + ch)) [0..<length (data img) div C]\<rparr>)"

text \<open>
  \<^verbatim>\<open>np.array(features, dtype=np.float32)\<close> stacks arrays of one shape along a new
  first axis; the empty list gives the empty array of shape \<open>(0,)\<close>, and arrays of
  different shapes raise ValueError.
\<close>

definition np_array_float32 :: "real ndarray list \<Rightarrow> error + real ndarray" where
  "np_array_float32 features =
     (case features of
        [] \<Rightarrow> Inr \<lparr>dtype = Float32, shape = [0], data = []\<rparr>
      | a # as \<Rightarrow>
          if \<forall>b \<in> set as. shape b = shape a
          then Inr \<lparr>dtype = Float32, shape = length features # shape a,
                    data = concat (map data features)\<rparr>
          else Inl ValueError)"

text \<open>
  \<^verbatim>\<open>multiscale_basic_features\<close>. The channels are computed one after the other, each
  with a run of its own: \<open>picks ch\<close> are the picks of the run of channel \<open>ch\<close>.
\<close>

definition multiscale_basic_features ::
  "backend \<Rightarrow> bool \<Rightarrow> (nat \<Rightarrow> nat list) \<Rightarrow> real ndarray \<Rightarrow> bool \<Rightarrow> bool \<Rightarrow> bool \<Rightarrow> bool \<Rightarrow>
   real \<Rightarrow> real \<Rightarrow> nat option \<Rightarrow> error + real ndarray" where
  "multiscale_basic_features B has_dask picks img multichannel intensity edges texture
       sigma_min sigma_max num_workers =
     (if 3 \<le> ndim img \<and> multichannel then
        (case sequence
                (map (\<lambda>ch. mutiscale_basic_features_singlechannel B has_dask (picks ch)
                               (channel img ch) intensity edges texture
                               sigma_min sigma_max num_workers)
                     [0..<last (shape img)]) of
           Inl e \<Rightarrow> Inl e
         | Inr all_results \<Rightarrow> np_array_float32 (concat all_results))
      else
        (case mutiscale_basic_features_singlechannel B has_dask (picks 0) img
                intensity edges texture sigma_min sigma_max num_workers of
           Inl e \<Rightarrow> Inl e
         | Inr features \<Rightarrow> np_array_float32 features))"


section \<open>Array indexing\<close>

text \<open>The comparisons \<^verbatim>\<open>labels > 0\<close> and \<^verbatim>\<open>labels == 0\<close>, element by element.\<close>

definition greater_zero :: "int ndarray \<Rightarrow> bool ndarray" where
  "greater_zero labels = \<lparr>dtype = Bool, shape = shape labels, data = map (\<lambda>v. 0 < v) (data labels)\<rparr>"

definition equal_zero :: "int ndarray \<Rightarrow> bool ndarray" where
  "equal_zero labels = \<lparr>dtype = Bool, shape = shape labels, data = map (\<lambda>v. v = 0) (data labels)\<rparr>"

definition select :: "bool list \<Rightarrow> 'a list \<Rightarrow> 'a list" where
  "select msk xs = map snd (filter fst (zip msk xs))"

text \<open>\<^verbatim>\<open>labels[mask].ravel()\<close>: the selected elements as a one-dimensional array.\<close>

definition index_mask :: "'a ndarray \<Rightarrow> bool ndarray \<Rightarrow> 'a ndarray" where
  "index_mask labels msk =
     (let picked = select (data msk) (data labels)
      in \<lparr>dtype = dtype labels, shape = [length picked], data = picked\<rparr>)"

text \<open>
  \<^verbatim>\<open>features[:, mask]\<close>: the mask indexes the axes after the first. It raises
  IndexError when the array has too few axes or when these axes do not have the shape of
  the mask. The result has the first axis, one axis for the selected positions, and the
  axes of the array that the mask did not index.
\<close>

definition index_columns :: "'a ndarray \<Rightarrow> bool ndarray \<Rightarrow> error + 'a ndarray" where
  "index_columns features msk =
     (let m = ndim msk
      in if ndim features < 1 + m then Inl IndexError
         else if take m (tl (shape features)) \<noteq> shape msk then Inl IndexError
         else
           (let F = hd (shape features);
                N = prod_list (shape msk);
                rest = drop (1 + m) (shape features);
                r = prod_list rest;
                picked = select (data msk) [0..<N]
            in Inr \<lparr>dtype = dtype features,
                     shape = F # length picked # rest,
                     data = concat (map (\<lambda>f. concat (map (\<lambda>p.
                                take r (drop ((f * N + p) * r) (data features))) picked))
                              [0..<F])\<rparr>))"

text \<open>The position of a multi-index in row-major order, and back.\<close>

fun ravel :: "nat list \<Rightarrow> nat list \<Rightarrow> nat" where
  "ravel (d # ds) (i # js) = i * prod_list ds + ravel ds js"
| "ravel _ _ = 0"

fun unravel :: "nat list \<Rightarrow> nat \<Rightarrow> nat list" where
  "unravel [] j = []"
| "unravel (d # ds) j = (j div prod_list ds) # unravel ds (j mod prod_list ds)"

text \<open>\<^verbatim>\<open>a.T\<close>: the axes in reverse order.\<close>

definition np_T :: "'a ndarray \<Rightarrow> 'a ndarray" where
  "np_T a =
     \<lparr>dtype = dtype a,
      shape = rev (shape a),
      data = map (\<lambda>j. data a ! ravel (shape a) (rev (unravel (rev (shape a)) j)))
               [0..<length (data a)]\<rparr>"

text \<open>
  \<^verbatim>\<open>output[mask] = values\<close>: the values must be at most one-dimensional (TypeError
  otherwise); there is one value for each selected position, or a single value that
  is written to all of them (ValueError otherwise).
\<close>

fun fill_where :: "bool list \<Rightarrow> 'a list \<Rightarrow> 'a list \<Rightarrow> 'a list" where
  "fill_where (m # ms) (x # xs) vs =
     (if m then (case vs of [] \<Rightarrow> x # fill_where ms xs [] | v # vs' \<Rightarrow> v # fill_where ms xs vs')
      else x # fill_where ms xs vs)"
| "fill_where _ xs _ = xs"

definition assign_mask :: "'a ndarray \<Rightarrow> bool ndarray \<Rightarrow> 'a ndarray \<Rightarrow> error + 'a ndarray" where
  "assign_mask output msk values =
     (let n = length (filter id (data msk))
      in if 1 < ndim values then Inl TypeError
         else if length (data values) = n
           then Inr (output\<lparr>data := fill_where (data msk) (data output) (data values)\<rparr>)
         else if length (data values) = 1
           then Inr (output\<lparr>data := fill_where (data msk) (data output)
                                        (replicate n (hd (data values)))\<rparr>)
         else Inl ValueError)"

section \<open>The classifier and the two segmentation functions\<close>

text \<open>
  The classifier is an object of the caller with the methods \<^verbatim>\<open>fit\<close> and
  \<^verbatim>\<open>predict\<close>. \<^verbatim>\<open>fit\<close> changes the object in place: it is a function from the
  state of the object to its new state.
\<close>

record 'c classifier =
  clf_state :: 'c
  clf_fit :: "'c \<Rightarrow> real ndarray \<Rightarrow> int ndarray \<Rightarrow> error + 'c"
  clf_predict :: "'c \<Rightarrow> real ndarray \<Rightarrow> error + int ndarray"

text \<open>
  Label arrays live in a heap, a list of arrays addressed by position, so that an array
  and its copy are told apart. \<^verbatim>\<open>np.copy\<close> allocates a new array at the end of
  the heap. A reference always names an array of the heap; the model answers any other
  with \<open>DanglingReference\<close>.
\<close>

type_synonym heap = "int ndarray list"

definition fit_segmenter ::
  "heap \<Rightarrow> nat \<Rightarrow> real ndarray \<Rightarrow> 'c classifier \<Rightarrow> error + (heap \<times> nat \<times> 'c classifier)" where
  "fit_segmenter h labels_ref features clf =
     (if length h \<le> labels_ref then Inl DanglingReference
      else
        (let labels = h ! labels_ref
         in case index_columns features (greater_zero labels) of
              Inl e \<Rightarrow> Inl e
            | Inr cols \<Rightarrow>
                (let training_data = np_T cols;
                     training_labels = index_mask labels (greater_zero labels)
                 in case clf_fit clf (clf_state clf) training_data training_labels of
                      Inl e \<Rightarrow> Inl e
                    | Inr fitted \<Rightarrow>
                        (let clf = clf\<lparr>clf_state := fitted\<rparr>
                         in case index_columns features (equal_zero labels) of
                              Inl e \<Rightarrow> Inl e
                            | Inr cols0 \<Rightarrow>
                                (case clf_predict clf (clf_state clf) (np_T cols0) of
                                   Inl e \<Rightarrow> Inl e
                                 | Inr predicted_labels \<Rightarrow>
                                     (let output_ref = length h;
                                          h = h @ [labels]
                                      in case assign_mask (h ! output_ref) (equal_zero labels)
                                                predicted_labels of
                                           Inl e \<Rightarrow> Inl e
                                         | Inr output \<Rightarrow>
                                             Inr (h[output_ref := output], output_ref, clf)))))))"



section \<open>The segmenter object\<close>

text \<open>
  \<^verbatim>\<open>TrainableSegmenter\<close>: the classifier, the feature function (\<open>None\<close> until the
  default is chosen), the cached features and the result of the last \<^verbatim>\<open>fit\<close>. A
  feature function takes the image the caller passed, which is \<open>None\<close> when
  \<^verbatim>\<open>fit\<close> is called without one.
\<close>

type_synonym features_func = "real ndarray option \<Rightarrow> error + real ndarray"

record 'c segmenter =
  self_clf :: "'c classifier"
  self_features_func :: "features_func option"
  self_features :: "real ndarray option"
  self_segmented_image :: "nat option"


text \<open>
  \<^verbatim>\<open>__init__\<close>: without a classifier it builds a random forest of scikit-learn,
  \<open>forest\<close> below, which is \<open>None\<close> when scikit-learn is not installed.
\<close>

definition init ::
  "'c classifier option \<Rightarrow> 'c classifier option \<Rightarrow> features_func option \<Rightarrow> error + 'c segmenter" where
  "init forest clf features_func =
     (case (case clf of
              None \<Rightarrow> (case forest of None \<Rightarrow> Inl ImportError | Some rf \<Rightarrow> Inr rf)
            | Some c \<Rightarrow> Inr c) of
        Inl e \<Rightarrow> Inl e
      | Inr c \<Rightarrow> Inr \<lparr>self_clf = c, self_features_func = features_func,
                      self_features = None, self_segmented_image = None\<rparr>)"

definition compute_features ::
  "features_func \<Rightarrow> 'c segmenter \<Rightarrow> real ndarray option \<Rightarrow> error + 'c segmenter" where
  "compute_features default_func self img =
     (let func = (case self_features_func self of None \<Rightarrow> default_func | Some f \<Rightarrow> f);
          self = self\<lparr>self_features_func := Some func\<rparr>
      in case func img of
           Inl e \<Rightarrow> Inl e
         | Inr fs \<Rightarrow> Inr (self\<lparr>self_features := Some fs\<rparr>))"

definition fit ::
  "features_func \<Rightarrow> heap \<Rightarrow> 'c segmenter \<Rightarrow> nat \<Rightarrow> real ndarray option \<Rightarrow>
   error + (heap \<times> 'c segmenter)" where
  "fit default_func h self labels_ref img =
     (case (if self_features self = None then compute_features default_func self img
            else Inr self) of
        Inl e \<Rightarrow> Inl e
      | Inr self \<Rightarrow>
          (case self_features self of
             None \<Rightarrow> Inl TypeError
           | Some fs \<Rightarrow>
               (case fit_segmenter h labels_ref fs (self_clf self) of
                  Inl e \<Rightarrow> Inl e
                | Inr (h, output_ref, clf) \<Rightarrow>
                    Inr (h, self\<lparr>self_clf := clf, self_segmented_image := Some output_ref\<rparr>))))"



section \<open>Notions used in the statements\<close>

text \<open>The executor is usable: a pool of threads has at least one thread.\<close>

definition pool_ok :: "bool \<Rightarrow> nat option \<Rightarrow> bool" where
  "pool_ok has_dask num_workers = (has_dask \<or> num_workers \<noteq> Some 0)"

text \<open>
  The canonical order of the feature stack, written from the specification's ordering
  contract and compared below with what \<open>multiscale_basic_features\<close> returns: the
  channels in ascending order; for each channel the scales in the order of the scale
  sequence; for each scale the intensity, then the edges, then the eigenvalues of the
  texture.
\<close>

definition n_channels :: "real ndarray \<Rightarrow> bool \<Rightarrow> nat" where
  "n_channels img multichannel = (if 3 \<le> ndim img \<and> multichannel then last (shape img) else 1)"

definition channel_image :: "real ndarray \<Rightarrow> bool \<Rightarrow> nat \<Rightarrow> real ndarray" where
  "channel_image img multichannel ch = (if 3 \<le> ndim img \<and> multichannel then channel img ch else img)"

definition feature_bundle :: "backend \<Rightarrow> real ndarray \<Rightarrow> real \<Rightarrow> bool \<Rightarrow> bool \<Rightarrow> bool \<Rightarrow> real ndarray list" where
  "feature_bundle B img sigma intensity edges texture =
     (let blurred = gaussian B img sigma
      in (if intensity then [blurred] else []) @
         (if edges then [sobel B blurred] else []) @
         (if texture then (case texture_filter B blurred of Inl e \<Rightarrow> [] | Inr eigvals \<Rightarrow> eigvals)
          else []))"

definition canonical_order ::
  "backend \<Rightarrow> real ndarray \<Rightarrow> bool \<Rightarrow> real list \<Rightarrow> bool \<Rightarrow> bool \<Rightarrow> bool \<Rightarrow> real ndarray list" where
  "canonical_order B img multichannel scales intensity edges texture =
     concat (map (\<lambda>ch. concat (map (\<lambda>s. feature_bundle B (img_as_float32 B (channel_image img multichannel ch))
                                             s intensity edges texture) scales))
                 [0..<n_channels img multichannel])"

definition scales_of :: "real \<Rightarrow> real \<Rightarrow> real list" where
  "scales_of sigma_min sigma_max =
     (case sigmas sigma_min sigma_max of Inl e \<Rightarrow> [] | Inr scales \<Rightarrow> scales)"

text \<open>
  A backend for evaluating the pipeline at concrete inputs: every filter returns the
  array it is given. It keeps shapes.
\<close>

definition identity_backend :: backend where
  "identity_backend =
     \<lparr>img_as_float32 = (\<lambda>a. a), gaussian = (\<lambda>a s. a), sobel = (\<lambda>a. a),
      gradient = (\<lambda>a ax. a), eigvals_general = (\<lambda>H. [])\<rparr>"

text \<open>Two images for evaluating the pipeline: a square one and one with a single row.\<close>

definition example_image :: "real ndarray" where
  "example_image = \<lparr>dtype = Float64, shape = [2, 2], data = [0, 1, 1, 0]\<rparr>"

definition thin_image :: "real ndarray" where
  "thin_image = \<lparr>dtype = Float64, shape = [1, 3], data = [0, 1, 0]\<rparr>"

text \<open>
  The rows of a two-dimensional array, and the feature vector of pixel \<open>p\<close> of a stack
  of shape \<open>(F, *S)\<close>: the values at position \<open>p\<close> of the \<open>F\<close> slices.
\<close>

definition rows_of :: "'a ndarray \<Rightarrow> 'a list list" where
  "rows_of X =
     (case shape X of
        [n, F] \<Rightarrow> map (\<lambda>i. take F (drop (i * F) (data X))) [0..<n]
      | _ \<Rightarrow> [])"

definition pixel_row :: "'a ndarray \<Rightarrow> nat \<Rightarrow> 'a list" where
  "pixel_row features p =
     (let F = hd (shape features); N = prod_list (tl (shape features))
      in map (\<lambda>f. data features ! (f * N + p)) [0..<F])"

text \<open>
  A classifier for evaluating the segmentation functions at concrete inputs: it stores
  the training rows with their labels and predicts the label stored for a row, or 0 for
  a row it has not seen. Before \<open>fit\<close> it has no table, and \<open>predict\<close> raises
  NotFittedError.
\<close>

definition lookup_classifier :: "(real list \<times> int) list option classifier" where
  "lookup_classifier =
     \<lparr>clf_state = None,
      clf_fit = (\<lambda>st X y. Inr (Some (zip (rows_of X) (data y)))),
      clf_predict = (\<lambda>st X.
        case st of
          None \<Rightarrow> Inl (NotFittedError ''This classifier instance is not fitted yet.'')
        | Some table \<Rightarrow>
            Inr \<lparr>dtype = Int64, shape = [length (rows_of X)],
                 data = map (\<lambda>r. case map_of table r of None \<Rightarrow> 0 | Some l \<Rightarrow> l)
                          (rows_of X)\<rparr>)\<rparr>"



text \<open>
  Labels and features of three pixels for evaluating the segmentation functions: two
  labelled pixels and one to be predicted, with a stack of one feature. In
  \<open>distinct_features\<close> the labelled pixels differ, in \<open>twin_features\<close> all pixels
  have the same feature vector.
\<close>

definition marked_labels :: "int ndarray" where
  "marked_labels = \<lparr>dtype = Int64, shape = [3], data = [1, 2, 0]\<rparr>"

definition distinct_features :: "real ndarray" where
  "distinct_features = \<lparr>dtype = Float32, shape = [1, 3], data = [5, 6, 5]\<rparr>"

definition twin_features :: "real ndarray" where
  "twin_features = \<lparr>dtype = Float32, shape = [1, 3], data = [7, 7, 7]\<rparr>"







section \<open>Properties of the scale sequence\<close>


lemma np_linspace_one: "np_linspace lo hi (Suc 0) = [lo]"
  by (simp add: np_linspace_def)

lemma np_linspace_many:
  assumes "2 \<le> n"
  shows "np_linspace lo hi n = map (\<lambda>i. real i * ((hi - lo) / real (n - 1)) + lo) [0..<n]"
proof -
  let ?f = "\<lambda>i. real i * ((hi - lo) / real (n - 1)) + lo"
  have "?f (n - 1) = hi" using assms by simp
  hence "(map ?f [0..<n])[n - 1 := hi] = map ?f [0..<n]"
    using assms by (metis (no_types, lifting) diff_less length_map length_upt list_update_id
        nth_map_upt add_0 diff_zero less_le_trans zero_less_one pos2 zero_less_numeral)
  thus ?thesis using assms by (simp add: np_linspace_def Let_def)
qed

lemma sigmas_finite:
  assumes "0 < smin" "0 < smax"
  shows "sigmas smin smax =
     (let num = (if 0 \<le> log 2 smax - log 2 smin + 1 then \<lfloor>log 2 smax - log 2 smin + 1\<rfloor>
                 else \<lceil>log 2 smax - log 2 smin + 1\<rceil>)
      in if num < 0 then Inl ValueError
         else Inr (rev (map (\<lambda>y. 2 powr y) (np_linspace (log 2 smin) (log 2 smax) (nat num)))))"
  using assms by (simp add: sigmas_def np_log2_def np_logspace_def Let_def)



lemma sigmas_valid:
  assumes "0 < smin" "smin \<le> smax"
  defines "d \<equiv> log 2 smax - log 2 smin"
  defines "n \<equiv> nat (\<lfloor>d\<rfloor> + 1)"
  defines "r \<equiv> 2 powr (d / real (n - 1))"
  shows "sigmas smin smax = Inr (rev (map (\<lambda>i. smin * r ^ i) [0..<n]))"
    and "0 \<le> d" and "1 \<le> n"
proof -
  have pos: "0 < smax" using assms by linarith
  show d0: "0 \<le> d" unfolding d_def using assms(1,2) pos by (simp add: log_le_cancel_iff)
  hence fl: "0 \<le> \<lfloor>d\<rfloor>" by simp
  thus n1: "1 \<le> n" unfolding n_def by linarith
  have num: "(if 0 \<le> d + 1 then \<lfloor>d + 1\<rfloor> else \<lceil>d + 1\<rceil>) = int n"
    using d0 fl unfolding n_def by simp
  have lin: "map (\<lambda>y. 2 powr y) (np_linspace (log 2 smin) (log 2 smax) n)
       = map (\<lambda>i. smin * r ^ i) [0..<n]"
  proof (cases "n = 1")
    case True
    thus ?thesis using assms(1) by (simp add: np_linspace_one)
  next
    case False
    hence n2: "2 \<le> n" using n1 by linarith
    have "2 powr (real i * (d / real (n - 1)) + log 2 smin) = smin * r ^ i" for i
    proof -
      have "2 powr (real i * (d / real (n - 1)) + log 2 smin)
          = 2 powr (real i * (d / real (n - 1))) * 2 powr (log 2 smin)"
        by (simp add: powr_add)
      also have "2 powr (log 2 smin) = smin" using assms(1) by simp
      also have "2 powr (real i * (d / real (n - 1))) = r ^ i"
        unfolding r_def by (simp add: powr_powr mult.commute flip: powr_realpow)
      finally show ?thesis by (simp add: mult.commute)
    qed
    thus ?thesis using n2 by (simp add: np_linspace_many d_def)
  qed
  have "sigmas smin smax = Inr (rev (map (\<lambda>y. 2 powr y) (np_linspace (log 2 smin) (log 2 smax) (nat (int n)))))"
    unfolding sigmas_finite[OF assms(1) pos] Let_def num[unfolded d_def] by simp
  thus "sigmas smin smax = Inr (rev (map (\<lambda>i. smin * r ^ i) [0..<n]))"
    using lin by simp
qed

section \<open>Properties of the parallel run\<close>

lemma mset_completion_order: "mset (completion_order picks xs) = mset xs"
proof (induction picks xs rule: completion_order.induct)
  case (1 picks)
  show ?case by simp
next
  case (2 picks x xs)
  define pending where "pending = x # xs"
  define k where "k = (case picks of [] \<Rightarrow> 0 | p # _ \<Rightarrow> p mod length pending)"
  have k: "k < length pending" unfolding k_def pending_def by (auto split: list.splits)
  have IH: "mset (completion_order (tl picks) (take k pending @ drop (Suc k) pending))
      = mset (take k pending @ drop (Suc k) pending)"
    using "2.IH"[OF pending_def k_def] .
  have "mset pending = mset (take k pending @ pending ! k # drop (Suc k) pending)"
    using k by (simp add: id_take_nth_drop[symmetric])
  hence "mset (pending ! k # completion_order (tl picks) (take k pending @ drop (Suc k) pending))
      = mset pending" using IH by (simp del: mset_append add: mset_append[of "take k pending" "drop (Suc k) pending"] mset_append[of "take k pending" "_ # _"])
  moreover have "completion_order picks (x # xs)
      = pending ! k # completion_order (tl picks) (take k pending @ drop (Suc k) pending)"
    by (simp only: completion_order.simps Let_def pending_def k_def)
  ultimately show ?case by (simp only: pending_def)
qed

lemma sort_key_fst_indexed:
  assumes "mset ys = mset (zip [0..<length xs] xs)"
  shows "sort_key fst ys = zip [0..<length xs] xs"
proof (rule properties_for_sort_key)
  show "mset (zip [0..<length xs] xs) = mset ys" using assms by simp
  show "sorted (map fst (zip [0..<length xs] xs))" by simp
  fix k assume "k \<in> set (zip [0..<length xs] xs)"
  have d1: "distinct (map fst (zip [0..<length xs] xs))" by simp
  have "mset (map fst ys) = mset (map fst (zip [0..<length xs] xs))" using assms by (metis mset_map)
  hence d2: "distinct (map fst ys)" using d1 by (metis mset_eq_imp_distinct_iff)
  have kin: "k \<in> set ys" using \<open>k \<in> set (zip [0..<length xs] xs)\<close> assms by (metis mset_eq_setD)
  have single: "filter (\<lambda>x. fst k = fst x) zs = [k]" if "distinct (map fst zs)" "k \<in> set zs" for zs :: "(nat \<times> 'a) list"
    using that
  proof (induction zs)
    case Nil thus ?case by simp
  next
    case (Cons z zs)
    show ?case
    proof (cases "z = k")
      case True
      have "filter (\<lambda>x. fst k = fst x) zs = []"
        using Cons.prems(1) True by (auto simp: filter_empty_conv image_iff)
      thus ?thesis using True by simp
    next
      case False
      hence "k \<in> set zs" using Cons.prems(2) by simp
      moreover have "fst k \<noteq> fst z" using Cons.prems(1) \<open>k \<in> set zs\<close> by (auto simp: image_iff)
      ultimately show ?thesis using Cons by simp
    qed
  qed
  show "filter (\<lambda>x. fst k = fst x) (zip [0..<length xs] xs) = filter (\<lambda>x. fst k = fst x) ys"
    using single[OF d1 \<open>k \<in> set (zip [0..<length xs] xs)\<close>] single[OF d2 kin] by simp
qed

lemma gather_in_order: "gather picks tasks = tasks"
  unfolding gather_def
  by (simp add: sort_key_fst_indexed[OF mset_completion_order])

lemma sequence_Inr_iff: "sequence rs = Inr xs \<longleftrightarrow> rs = map Inr xs"
proof (induction rs arbitrary: xs rule: sequence.induct)
  case 1 show ?case by auto
next
  case (2 e rs) show ?case by auto
next
  case (3 x rs)
  show ?case
  proof (cases "sequence rs")
    case (Inl e)
    hence "\<And>ys. rs \<noteq> map Inr ys" using 3 by auto
    thus ?thesis using Inl by (auto simp: map_eq_Cons_conv)
  next
    case (Inr ys)
    hence "rs = map Inr ys" using 3 by auto
    thus ?thesis using Inr by (auto simp: map_eq_Cons_conv inj_map_eq_map inj_on_def)
  qed
qed

lemma sequence_Inl_set: "sequence rs = Inl e \<Longrightarrow> Inl e \<in> set rs"
  by (induction rs rule: sequence.induct) (auto split: sum.splits)

lemma sequence_perm_Inr:
  assumes "mset rs' = mset rs" "sequence rs = Inr xs"
  shows "\<exists>ys. sequence rs' = Inr ys"
proof (cases "sequence rs'")
  case (Inl e)
  hence "Inl e \<in> set rs'" by (rule sequence_Inl_set)
  hence "Inl e \<in> set rs" using assms(1) by (metis mset_eq_setD)
  thus ?thesis using assms(2) by (auto simp: sequence_Inr_iff)
next
  case (Inr ys) thus ?thesis by blast
qed


section \<open>Properties of the aggregation\<close>

lemma sequence_completion_order_Inr:
  assumes "sequence tasks = Inr outs"
  shows "\<exists>ys. sequence (completion_order picks tasks) = Inr ys"
  using sequence_perm_Inr[OF mset_completion_order assms] .

lemma sequence_completion_order_Inl:
  assumes "sequence tasks = Inl e"
  shows "\<exists>e'. sequence (completion_order picks tasks) = Inl e'"
proof (cases "sequence (completion_order picks tasks)")
  case (Inl e') thus ?thesis by blast
next
  case (Inr ys)
  have "mset tasks = mset (completion_order picks tasks)" by (simp add: mset_completion_order)
  from sequence_perm_Inr[OF this Inr] assms show ?thesis by simp
qed

lemma thread_pool_map_Inr_iff:
  "thread_pool_map num_workers picks tasks = Inr outs \<longleftrightarrow>
     num_workers \<noteq> Some 0 \<and> sequence tasks = Inr outs"
  by (simp add: thread_pool_map_def gather_in_order)

lemma dask_compute_Inr_iff:
  "dask_compute num_workers picks tasks = Inr outs \<longleftrightarrow> sequence tasks = Inr outs"
proof (cases "sequence tasks")
  case (Inl e)
  then obtain e' where "sequence (completion_order picks tasks) = Inl e'"
    using sequence_completion_order_Inl by blast
  thus ?thesis using Inl by (simp add: dask_compute_def)
next
  case (Inr ys)
  then obtain zs where "sequence (completion_order picks tasks) = Inr zs"
    using sequence_completion_order_Inr by blast
  thus ?thesis by (simp add: dask_compute_def gather_in_order)
qed

lemma executor_Inr_iff:
  "(if has_dask then dask_compute num_workers picks tasks
    else thread_pool_map num_workers picks tasks) = Inr outs \<longleftrightarrow>
   pool_ok has_dask num_workers \<and> sequence tasks = Inr outs"
  by (simp add: pool_ok_def thread_pool_map_Inr_iff dask_compute_Inr_iff)

lemma singlechannel_Inr_iff:
  "mutiscale_basic_features_singlechannel B has_dask picks img intensity edges texture
       sigma_min sigma_max num_workers = Inr features \<longleftrightarrow>
   pool_ok has_dask num_workers \<and>
   (\<exists>scales outs. sigmas sigma_min sigma_max = Inr scales \<and>
      sequence (map (\<lambda>s. singlescale_basic_features_singlechannel B (img_as_float32 B img) s
                            intensity edges texture) scales) = Inr outs \<and>
      features = concat outs)"
proof (cases "sigmas sigma_min sigma_max")
  case (Inl e)
  thus ?thesis by (simp add: mutiscale_basic_features_singlechannel_def)
next
  case (Inr scales)
  let ?tasks = "map (\<lambda>s. singlescale_basic_features_singlechannel B (img_as_float32 B img) s
                            intensity edges texture) scales"
  let ?run = "if has_dask then dask_compute num_workers picks ?tasks
              else thread_pool_map num_workers picks ?tasks"
  have "mutiscale_basic_features_singlechannel B has_dask picks img intensity edges texture
       sigma_min sigma_max num_workers = (case ?run of Inl e \<Rightarrow> Inl e | Inr os \<Rightarrow> Inr (concat os))"
    using Inr by (simp add: mutiscale_basic_features_singlechannel_def Let_def)
  also have "\<dots> = Inr features \<longleftrightarrow> (\<exists>outs. ?run = Inr outs \<and> features = concat outs)"
    by (cases ?run) auto
  also have "\<dots> \<longleftrightarrow> (\<exists>outs. pool_ok has_dask num_workers \<and> sequence ?tasks = Inr outs \<and> features = concat outs)"
    unfolding executor_Inr_iff by blast
  finally show ?thesis using Inr by auto
qed

lemma singlechannel_picks_workers:
  assumes "pool_ok has_dask w1 \<longleftrightarrow> pool_ok has_dask w2"
  shows "mutiscale_basic_features_singlechannel B has_dask picks1 img intensity edges texture
       sigma_min sigma_max w1 = Inr features \<longleftrightarrow>
     mutiscale_basic_features_singlechannel B has_dask picks2 img intensity edges texture
       sigma_min sigma_max w2 = Inr features"
  unfolding singlechannel_Inr_iff using assms by simp

lemma sequence_singleton: "sequence [r] = (case r of Inl e \<Rightarrow> Inl e | Inr x \<Rightarrow> Inr [x])"
  by (cases r) auto

lemma multiscale_by_channels:
  "multiscale_basic_features B has_dask picks img multichannel intensity edges texture
       sigma_min sigma_max num_workers =
   (case sequence (map (\<lambda>ch. mutiscale_basic_features_singlechannel B has_dask (picks ch)
                               (channel_image img multichannel ch) intensity edges texture
                               sigma_min sigma_max num_workers)
                    [0..<n_channels img multichannel]) of
      Inl e \<Rightarrow> Inl e
    | Inr all_results \<Rightarrow> np_array_float32 (concat all_results))"
proof (cases "3 \<le> ndim img \<and> multichannel")
  case True
  thus ?thesis by (simp add: multiscale_basic_features_def n_channels_def channel_image_def)
next
  case False
  hence "multiscale_basic_features B has_dask picks img multichannel intensity edges texture
       sigma_min sigma_max num_workers =
     (case mutiscale_basic_features_singlechannel B has_dask (picks 0) img
                intensity edges texture sigma_min sigma_max num_workers of
           Inl e \<Rightarrow> Inl e
         | Inr features \<Rightarrow> np_array_float32 features)"
    by (auto simp: multiscale_basic_features_def)
  moreover have "[0..<n_channels img multichannel] = [0]" using False by (auto simp: n_channels_def)
  moreover have "channel_image img multichannel 0 = img" using False by (auto simp: channel_image_def)
  ultimately show ?thesis by (simp add: sequence_singleton split: sum.splits)
qed

lemma multiscale_Inr_iff:
  "multiscale_basic_features B has_dask picks img multichannel intensity edges texture
       sigma_min sigma_max num_workers = Inr out \<longleftrightarrow>
   (\<exists>all_results.
      map (\<lambda>ch. mutiscale_basic_features_singlechannel B has_dask (picks ch)
                               (channel_image img multichannel ch) intensity edges texture
                               sigma_min sigma_max num_workers)
                    [0..<n_channels img multichannel] = map Inr all_results \<and>
      np_array_float32 (concat all_results) = Inr out)"
  unfolding multiscale_by_channels sequence_Inr_iff[symmetric]
  by (auto split: sum.splits)

lemma singlescale_is_bundle:
  assumes "singlescale_basic_features_singlechannel B img s intensity edges texture = Inr r"
  shows "r = feature_bundle B img s intensity edges texture"
  using assms
  by (auto simp: singlescale_basic_features_singlechannel_def feature_bundle_def Let_def
           split: if_splits sum.splits)

lemma singlechannel_is_canonical:
  assumes "mutiscale_basic_features_singlechannel B has_dask picks img intensity edges texture
       sigma_min sigma_max num_workers = Inr features"
  shows "features = concat (map (\<lambda>s. feature_bundle B (img_as_float32 B img) s intensity edges texture)
                             (scales_of sigma_min sigma_max))"
proof -
  from assms obtain scales outs where
    sc: "sigmas sigma_min sigma_max = Inr scales" and
    sq: "sequence (map (\<lambda>s. singlescale_basic_features_singlechannel B (img_as_float32 B img) s
                            intensity edges texture) scales) = Inr outs" and
    fs: "features = concat outs"
    unfolding singlechannel_Inr_iff by blast
  have "map (\<lambda>s. singlescale_basic_features_singlechannel B (img_as_float32 B img) s
                            intensity edges texture) scales = map Inr outs"
    using sq by (simp add: sequence_Inr_iff)
  hence len: "length scales = length outs" and
    nth: "\<And>i. i < length outs \<Longrightarrow> singlescale_basic_features_singlechannel B
            (img_as_float32 B img) (scales ! i) intensity edges texture = Inr (outs ! i)"
    by (auto simp: list_eq_iff_nth_eq)
  have "outs = map (\<lambda>s. feature_bundle B (img_as_float32 B img) s intensity edges texture) scales"
    by (rule nth_equalityI) (use len singlescale_is_bundle[OF nth] in auto)
  thus ?thesis using fs sc by (simp add: scales_of_def)
qed

lemma multiscale_is_canonical:
  assumes "multiscale_basic_features B has_dask picks img multichannel intensity edges texture
       sigma_min sigma_max num_workers = Inr out"
  shows "np_array_float32 (canonical_order B img multichannel (scales_of sigma_min sigma_max)
            intensity edges texture) = Inr out"
proof -
  from assms obtain all_results where
    m: "map (\<lambda>ch. mutiscale_basic_features_singlechannel B has_dask (picks ch)
                               (channel_image img multichannel ch) intensity edges texture
                               sigma_min sigma_max num_workers)
                    [0..<n_channels img multichannel] = map Inr all_results" and
    st: "np_array_float32 (concat all_results) = Inr out"
    unfolding multiscale_Inr_iff by blast
  from m have len: "n_channels img multichannel = length all_results" and
    nth: "\<And>i. i < length all_results \<Longrightarrow> mutiscale_basic_features_singlechannel B has_dask
            (picks i) (channel_image img multichannel i) intensity edges texture
            sigma_min sigma_max num_workers = Inr (all_results ! i)"
    by (auto simp: list_eq_iff_nth_eq)
  have "all_results = map (\<lambda>ch. concat (map (\<lambda>s. feature_bundle B
            (img_as_float32 B (channel_image img multichannel ch)) s intensity edges texture)
            (scales_of sigma_min sigma_max))) [0..<n_channels img multichannel]"
    by (rule nth_equalityI) (use len singlechannel_is_canonical[OF nth] in auto)
  thus ?thesis using st by (simp add: canonical_order_def)
qed

lemma multiscale_picks_workers:
  assumes "pool_ok has_dask w1 \<longleftrightarrow> pool_ok has_dask w2"
  shows "multiscale_basic_features B has_dask picks1 img multichannel intensity edges texture
       sigma_min sigma_max w1 = Inr out \<longleftrightarrow>
     multiscale_basic_features B has_dask picks2 img multichannel intensity edges texture
       sigma_min sigma_max w2 = Inr out"
proof -
  have "map (\<lambda>ch. mutiscale_basic_features_singlechannel B has_dask (picks1 ch)
                               (channel_image img multichannel ch) intensity edges texture
                               sigma_min sigma_max w1) chs = map Inr rs \<longleftrightarrow>
        map (\<lambda>ch. mutiscale_basic_features_singlechannel B has_dask (picks2 ch)
                               (channel_image img multichannel ch) intensity edges texture
                               sigma_min sigma_max w2) chs = map Inr rs" for chs rs
  proof -
    have eq: "(mutiscale_basic_features_singlechannel B has_dask (picks1 ch)
                               (channel_image img multichannel ch) intensity edges texture
                               sigma_min sigma_max w1 = Inr r) =
              (mutiscale_basic_features_singlechannel B has_dask (picks2 ch)
                               (channel_image img multichannel ch) intensity edges texture
                               sigma_min sigma_max w2 = Inr r)" for ch r
      by (rule singlechannel_picks_workers[OF assms])
    show ?thesis by (auto simp: list_eq_iff_nth_eq eq)
  qed
  thus ?thesis unfolding multiscale_Inr_iff by simp
qed


section \<open>The shape of the features of a two-dimensional image\<close>

lemma combinations_2: "combinations_with_replacement 2 = [(0, 0), (0, Suc 0), (Suc 0, Suc 0)]"
proof -
  have "[0..<2] = [0, Suc 0]" "[Suc 0..<2] = [Suc 0]" by (simp_all add: upt_rec)
  thus ?thesis by (simp add: combinations_with_replacement_def)
qed

lemma H_elem_2d:
  assumes sp: "shape_preserving B" and sh: "shape g = [H, W]" and big: "2 \<le> H" "2 \<le> W"
    and ax: "ax0 < 2" "ax1 < 2"
  shows "H_elem B g (ax0, ax1) = Inr (gradient B (gradient B g ax0) ax1)"
proof -
  have u: "[0..<2] = [0, Suc 0]" by (simp add: upt_rec)
  have g: "np_gradient B g = Inr [gradient B g 0, gradient B g (Suc 0)]"
    using sh big by (auto simp: np_gradient_def ndim_def u)
  have shg: "shape (gradient B g ax0) = [H, W]" using sp sh by (simp add: shape_preserving_def)
  have nth: "[gradient B g 0, gradient B g (Suc 0)] ! ax0 = gradient B g ax0"
    using ax(1) by (cases ax0) auto
  have "shape (gradient B g ax0) ! ax1 = (if ax1 = 0 then H else W)"
    using ax(2) shg by (cases ax1) auto
  hence "np_gradient_axis B (gradient B g ax0) ax1 = Inr (gradient B (gradient B g ax0) ax1)"
    using shg ax(2) big by (auto simp: np_gradient_axis_def ndim_def)
  thus ?thesis using g sh nth by (simp add: H_elem_def ndim_def)
qed

lemma texture_filter_2d:
  assumes sp: "shape_preserving B" and sh: "shape g = [H, W]" and big: "2 \<le> H" "2 \<le> W"
  shows "\<exists>lo hi. texture_filter B g = Inr [lo, hi] \<and> shape lo = [H, W] \<and> shape hi = [H, W]"
proof -
  have shg: "shape (gradient B (gradient B g a) b) = [H, W]" for a b
    using sp sh by (simp add: shape_preserving_def)
  have "sequence (map (H_elem B g) (combinations_with_replacement (ndim g)))
      = Inr [gradient B (gradient B g 0) 0, gradient B (gradient B g 0) (Suc 0),
             gradient B (gradient B g (Suc 0)) (Suc 0)]"
  proof -
    have nd: "ndim g = 2" using sh by (simp add: ndim_def)
    have h: "H_elem B g (0, 0) = Inr (gradient B (gradient B g 0) 0)"
       "H_elem B g (0, Suc 0) = Inr (gradient B (gradient B g 0) (Suc 0))"
       "H_elem B g (Suc 0, Suc 0) = Inr (gradient B (gradient B g (Suc 0)) (Suc 0))"
      using H_elem_2d[OF sp sh big] by simp_all
    show ?thesis unfolding nd combinations_2 by (simp add: h)
  qed
  thus ?thesis
    using shg by (simp add: texture_filter_def hessian_matrix_eigvals_def)
qed

lemma singlescale_2d:
  assumes sp: "shape_preserving B" and sh: "shape img = [H, W]" and big: "2 \<le> H" "2 \<le> W"
  shows "\<exists>r. singlescale_basic_features_singlechannel B img s True True True = Inr r \<and>
             length r = 4 \<and> (\<forall>a \<in> set r. shape a = [H, W])"
proof -
  have g: "shape (gaussian B img s) = [H, W]" using sp sh by (simp add: shape_preserving_def)
  have sb: "shape (sobel B (gaussian B img s)) = [H, W]" using sp g by (simp add: shape_preserving_def)
  from texture_filter_2d[OF sp g big] obtain lo hi where
    "texture_filter B (gaussian B img s) = Inr [lo, hi]" "shape lo = [H, W]" "shape hi = [H, W]"
    by blast
  thus ?thesis using g sb by (simp add: singlescale_basic_features_singlechannel_def Let_def)
qed

lemma np_array_float32_shape:
  assumes "features \<noteq> []" and "\<forall>a \<in> set features. shape a = S"
  shows "\<exists>out. np_array_float32 features = Inr out \<and> shape out = length features # S \<and>
               dtype out = Float32"
  using assms by (cases features) (auto simp: np_array_float32_def)

lemma sequence_map_Inr: "sequence (map Inr xs) = Inr xs"
  by (simp add: sequence_Inr_iff)

lemma length_concat_const:
  assumes "\<forall>r \<in> set rs. length r = k"
  shows "length (concat rs) = k * length rs"
  using assms by (induction rs) auto

lemma features_2d:
  assumes sp: "shape_preserving B" and sh: "shape img = [H, W]" and big: "2 \<le> H" "2 \<le> W"
    and sig: "0 < sigma_min" "sigma_min \<le> sigma_max"
    and pool: "pool_ok has_dask num_workers"
  shows "\<exists>out scales. multiscale_basic_features B has_dask picks img multichannel True True True
             sigma_min sigma_max num_workers = Inr out \<and>
           sigmas sigma_min sigma_max = Inr scales \<and>
           shape out = [length scales * (1 + 1 + 2), H, W] \<and> dtype out = Float32"
proof -
  obtain scales where sc: "sigmas sigma_min sigma_max = Inr scales" and ne: "scales \<noteq> []"
  proof -
    have "1 \<le> nat (\<lfloor>log 2 sigma_max - log 2 sigma_min\<rfloor> + 1)" using sigmas_valid(3)[OF sig] .
    hence "[0..<nat (\<lfloor>log 2 sigma_max - log 2 sigma_min\<rfloor> + 1)] \<noteq> []" by simp
    thus ?thesis using sigmas_valid(1)[OF sig] that by simp
  qed
  have sh32: "shape (img_as_float32 B img) = [H, W]" using sp sh by (simp add: shape_preserving_def)
  define task where "task = (\<lambda>s. singlescale_basic_features_singlechannel B
                       (img_as_float32 B img) s True True True)"
  have "\<forall>s. \<exists>r. task s = Inr r \<and> length r = 4 \<and> (\<forall>a \<in> set r. shape a = [H, W])"
    unfolding task_def using singlescale_2d[OF sp sh32 big] by blast
  then obtain res where res: "\<And>s. task s = Inr (res s)" "\<And>s. length (res s) = 4"
      "\<And>s a. a \<in> set (res s) \<Longrightarrow> shape a = [H, W]"
    by metis
  define outs where "outs = map res scales"
  have "map task scales = map Inr outs" unfolding outs_def using res(1) by simp
  hence sq: "sequence (map task scales) = Inr outs" by (simp add: sequence_map_Inr)
  have single: "mutiscale_basic_features_singlechannel B has_dask (picks 0) img True True True
      sigma_min sigma_max num_workers = Inr (concat outs)"
    unfolding singlechannel_Inr_iff using pool sc sq unfolding task_def by blast
  have len: "length (concat outs) = 4 * length scales"
    using length_concat_const[of outs 4] res(2) unfolding outs_def by simp
  have ne': "concat outs \<noteq> []" using len ne by (metis length_0_conv mult_is_0 zero_neq_numeral)
  have shp: "\<forall>a \<in> set (concat outs). shape a = [H, W]" unfolding outs_def using res(3) by auto
  from np_array_float32_shape[OF ne' shp] obtain out where
    out: "np_array_float32 (concat outs) = Inr out" "shape out = length (concat outs) # [H, W]"
      "dtype out = Float32" by blast
  have nd: "\<not> (3 \<le> ndim img \<and> multichannel)" using sh by (simp add: ndim_def)
  have "multiscale_basic_features B has_dask picks img multichannel True True True
             sigma_min sigma_max num_workers = Inr out"
    unfolding multiscale_basic_features_def if_not_P[OF nd] using single out(1) by simp
  thus ?thesis using sc out(2,3) len by simp
qed

section \<open>Bounds outside the documented range\<close>







lemma executor_empty:
  assumes "pool_ok has_dask num_workers"
  shows "(if has_dask then dask_compute num_workers picks []
          else thread_pool_map num_workers picks []) = Inr []"
  using assms by (auto simp: pool_ok_def dask_compute_def thread_pool_map_def gather_def)



section \<open>Images too small for the texture, and the single-channel path\<close>

lemma sequence_all_fail:
  assumes "rs \<noteq> []" and "\<forall>r \<in> set rs. r = Inl e"
  shows "sequence rs = Inl e"
  using assms by (cases rs) auto

lemma executor_all_fail:
  assumes "tasks \<noteq> []" and "\<forall>r \<in> set tasks. r = Inl ValueError"
  shows "(if has_dask then dask_compute num_workers picks tasks
          else thread_pool_map num_workers picks tasks) = Inl ValueError"
proof -
  have m: "mset (completion_order picks tasks) = mset tasks" by (rule mset_completion_order)
  hence "set (completion_order picks tasks) = set tasks" by (rule mset_eq_setD)
  moreover have "completion_order picks tasks \<noteq> []" using m assms(1) by (metis mset_zero_iff)
  ultimately have "sequence (completion_order picks tasks) = Inl ValueError"
    using assms(2) by (intro sequence_all_fail) auto
  moreover have "sequence tasks = Inl ValueError" using assms by (rule sequence_all_fail)
  ultimately show ?thesis
    by (simp add: dask_compute_def thread_pool_map_def gather_in_order)
qed

lemma texture_filter_too_small:
  assumes "shape g = [H, W]" and "H < 2 \<or> W < 2"
  shows "texture_filter B g = Inl ValueError"
proof -
  have nd: "ndim g = 2" using assms(1) by (simp add: ndim_def)
  have "np_gradient B g = Inl ValueError" using assms by (auto simp: np_gradient_def)
  hence "H_elem B g (0, 0) = Inl ValueError" by (simp add: H_elem_def)
  thus ?thesis unfolding texture_filter_def nd combinations_2 by simp
qed

lemma features_too_small:
  assumes sp: "shape_preserving B" and sh: "shape img = [H, W]" and small: "H < 2 \<or> W < 2"
    and sig: "0 < sigma_min" "sigma_min \<le> sigma_max"
  shows "multiscale_basic_features B has_dask picks img multichannel intensity edges True
             sigma_min sigma_max num_workers = Inl ValueError"
proof -
  obtain scales where sc: "sigmas sigma_min sigma_max = Inr scales" and ne: "scales \<noteq> []"
  proof -
    have "1 \<le> nat (\<lfloor>log 2 sigma_max - log 2 sigma_min\<rfloor> + 1)" using sigmas_valid(3)[OF sig] .
    hence "[0..<nat (\<lfloor>log 2 sigma_max - log 2 sigma_min\<rfloor> + 1)] \<noteq> []" by simp
    thus ?thesis using sigmas_valid(1)[OF sig] that by simp
  qed
  have g: "shape (gaussian B (img_as_float32 B img) s) = [H, W]" for s
    using sp sh by (simp add: shape_preserving_def)
  have task: "singlescale_basic_features_singlechannel B (img_as_float32 B img) s
           intensity edges True = Inl ValueError" for s
    using texture_filter_too_small[OF g small]
    by (simp add: singlescale_basic_features_singlechannel_def Let_def)
  let ?tasks = "map (\<lambda>s. singlescale_basic_features_singlechannel B (img_as_float32 B img) s
           intensity edges True) scales"
  have "?tasks \<noteq> []" "\<forall>r \<in> set ?tasks. r = Inl ValueError" using ne task by auto
  from executor_all_fail[OF this]
  have "mutiscale_basic_features_singlechannel B has_dask (picks 0) img intensity edges True
      sigma_min sigma_max num_workers = Inl ValueError"
    using sc by (simp add: mutiscale_basic_features_singlechannel_def Let_def)
  moreover have nd: "\<not> (3 \<le> ndim img \<and> multichannel)" using sh by (simp add: ndim_def)
  ultimately show ?thesis
    unfolding multiscale_basic_features_def if_not_P[OF nd] by simp
qed

lemma identity_backend_shape_preserving: "shape_preserving identity_backend"
  by (simp add: shape_preserving_def identity_backend_def)

lemma multiscale_single_path:
  assumes "ndim img < 3"
  shows "multiscale_basic_features B has_dask picks img multichannel intensity edges texture
       sigma_min sigma_max num_workers =
     (case mutiscale_basic_features_singlechannel B has_dask (picks 0) img
                intensity edges texture sigma_min sigma_max num_workers of
           Inl e \<Rightarrow> Inl e
         | Inr features \<Rightarrow> np_array_float32 features)"
proof -
  have nd: "\<not> (3 \<le> ndim img \<and> multichannel)" using assms by simp
  show ?thesis unfolding multiscale_basic_features_def if_not_P[OF nd] ..
qed


section \<open>The scale sequence at concrete bounds\<close>

lemma log2_4: "log 2 4 = 2"
  using log_pow_cancel[of 2 2] by simp




lemma sigmas_1_4: "sigmas 1 4 = Inr [4, 2, 1]"
proof -
  have u: "[0..<3] = [0, Suc 0, 2]" by (simp add: upt_rec numeral_3_eq_3)
  show ?thesis
    by (simp add: sigmas_def np_log2_def np_logspace_def np_linspace_def log2_4 u Let_def)
qed

lemma sigmas_2_2: "sigmas 2 2 = Inr [2]"
  by (simp add: sigmas_def np_log2_def np_logspace_def np_linspace_def Let_def)



section \<open>The closed form of the eigenvalues\<close>





section \<open>The eigenvalues for every number of axes\<close>













section \<open>Selecting, transposing and filling\<close>



lemma set_select_upt:
  "set (select msk [0..<n]) = {p. p < n \<and> p < length msk \<and> msk ! p}"
proof -
  have "set (select msk [0..<n]) = snd ` {x \<in> set (zip msk [0..<n]). fst x}"
    by (simp add: select_def)
  also have "\<dots> = {p. p < n \<and> p < length msk \<and> msk ! p}"
  proof (intro set_eqI iffI)
    fix p assume "p \<in> snd ` {x \<in> set (zip msk [0..<n]). fst x}"
    then obtain m where "(m, p) \<in> set (zip msk [0..<n])" "m" by auto
    then obtain i where "i < length msk" "i < n" "msk ! i = m" "[0..<n] ! i = p"
      by (auto simp: set_zip)
    thus "p \<in> {p. p < n \<and> p < length msk \<and> msk ! p}" using \<open>m\<close> by simp
  next
    fix p assume "p \<in> {p. p < n \<and> p < length msk \<and> msk ! p}"
    hence p: "p < n" "p < length msk" "msk ! p" by simp_all
    hence "(True, p) \<in> set (zip msk [0..<n])"
      unfolding set_zip by (auto intro!: exI[of _ p])
    thus "p \<in> snd ` {x \<in> set (zip msk [0..<n]). fst x}" by force
  qed
  finally show ?thesis .
qed

lemma length_select: "length (select msk xs) \<le> length xs"
proof -
  have "length (select msk xs) \<le> length (zip msk xs)"
    unfolding select_def length_map by (rule length_filter_le)
  thus ?thesis by simp
qed

lemma length_select_count:
  assumes "length msk = length xs"
  shows "length (select msk xs) = length (filter id msk)"
  using assms
proof (induction msk xs rule: list_induct2)
  case Nil show ?case by (simp add: select_def)
next
  case (Cons m ms x xs) thus ?case by (simp add: select_def)
qed

lemma concat_map_upt:
  "concat (map (\<lambda>f. map (h f) [0..<k]) [0..<F]) = map (\<lambda>i. h (i div k) (i mod k)) [0..<F * k]"
proof (induction F)
  case 0 show ?case by simp
next
  case (Suc F)
  have upt: "[0..<F * k + k] = [0..<F * k] @ [F * k..<F * k + k]"
    by (rule upt_add_eq_append) simp
  have last_block: "map (\<lambda>i. h (i div k) (i mod k)) [F * k..<F * k + k] = map (h F) [0..<k]"
  proof (rule nth_equalityI)
    show "length (map (\<lambda>i. h (i div k) (i mod k)) [F * k..<F * k + k]) = length (map (h F) [0..<k])"
      by simp
    fix j assume "j < length (map (\<lambda>i. h (i div k) (i mod k)) [F * k..<F * k + k])"
    hence j: "j < k" by simp
    have d: "(F * k + j) div k = F" using j by simp
    have m: "(F * k + j) mod k = j" using j by simp
    have "map (\<lambda>i. h (i div k) (i mod k)) [F * k..<F * k + k] ! j
        = h ((F * k + j) div k) ((F * k + j) mod k)"
      using j by (simp only: nth_map length_upt nth_upt add_diff_cancel_left')
    also have "\<dots> = h F j" by (simp only: d m)
    also have "\<dots> = map (h F) [0..<k] ! j" using j by simp
    finally show "map (\<lambda>i. h (i div k) (i mod k)) [F * k..<F * k + k] ! j = map (h F) [0..<k] ! j" .
  qed
  have "concat (map (\<lambda>f. map (h f) [0..<k]) [0..<Suc F])
      = concat (map (\<lambda>f. map (h f) [0..<k]) [0..<F]) @ map (h F) [0..<k]" by simp
  also have "\<dots> = map (\<lambda>i. h (i div k) (i mod k)) [0..<F * k]
                   @ map (\<lambda>i. h (i div k) (i mod k)) [F * k..<F * k + k]"
    by (simp only: Suc.IH last_block)
  also have "\<dots> = map (\<lambda>i. h (i div k) (i mod k)) [0..<F * k + k]"
    by (simp only: upt map_append)
  also have "F * k + k = Suc F * k" by simp
  finally show ?case .
qed

lemma take_drop_map_upt:
  assumes "p < n"
  shows "take F (drop (p * F) (map g [0..<n * F])) = map (\<lambda>f. g (p * F + f)) [0..<F]"
proof (rule nth_equalityI)
  have le: "p * F + F \<le> n * F"
  proof -
    have "Suc p \<le> n" using assms by simp
    hence "Suc p * F \<le> n * F" by (rule mult_le_mono1)
    thus ?thesis by (simp add: add.commute)
  qed
  show len: "length (take F (drop (p * F) (map g [0..<n * F]))) = length (map (\<lambda>f. g (p * F + f)) [0..<F])"
    using le by simp
  fix i assume "i < length (take F (drop (p * F) (map g [0..<n * F])))"
  hence i: "i < F" by simp
  have lt: "p * F + i < n * F" using i le by linarith
  have "take F (drop (p * F) (map g [0..<n * F])) ! i = drop (p * F) (map g [0..<n * F]) ! i"
    using i by (rule nth_take)
  also have "\<dots> = map g [0..<n * F] ! (p * F + i)"
    by (rule nth_drop) (use assms in simp)
  also have "\<dots> = g (p * F + i)" using lt by (simp only: nth_map length_upt nth_upt diff_zero add_0)
  also have "\<dots> = map (\<lambda>f. g (p * F + f)) [0..<F] ! i" using i by simp
  finally show "take F (drop (p * F) (map g [0..<n * F])) ! i = map (\<lambda>f. g (p * F + f)) [0..<F] ! i" .
qed

lemma np_T_2d:
  assumes "shape a = [F, n]" and "length (data a) = F * n"
  shows "np_T a = \<lparr>dtype = dtype a, shape = [n, F],
                    data = map (\<lambda>j. data a ! ((j mod F) * n + j div F)) [0..<n * F]\<rparr>"
  using assms by (simp add: np_T_def mult.commute)

lemma rows_of_np_T:
  assumes "shape a = [F, n]" and "length (data a) = F * n"
  shows "rows_of (np_T a) = map (\<lambda>p. map (\<lambda>f. data a ! (f * n + p)) [0..<F]) [0..<n]"
proof -
  let ?g = "\<lambda>j. data a ! ((j mod F) * n + j div F)"
  have row: "take F (drop (p * F) (map ?g [0..<n * F])) = map (\<lambda>f. data a ! (f * n + p)) [0..<F]"
    if "p < n" for p
  proof -
    have "map (\<lambda>f. ?g (p * F + f)) [0..<F] = map (\<lambda>f. data a ! (f * n + p)) [0..<F]"
      by (rule map_cong) (auto simp: mult.commute)
    thus ?thesis using take_drop_map_upt[OF that, of F ?g] by simp
  qed
  show ?thesis
    unfolding np_T_2d[OF assms] rows_of_def using row by simp
qed

lemma map_via_nth: "map f xs = map (\<lambda>j. f (xs ! j)) [0..<length xs]"
  by (rule nth_equalityI) simp_all

lemma concat_singletons: "concat (map (\<lambda>p. [g p]) xs) = map g xs"
  by (induction xs) simp_all

lemma div_mod_block:
  fixes j k f :: nat
  assumes "j < k"
  shows "(f * k + j) div k = f" and "(f * k + j) mod k = j"
  using assms by simp_all

lemma select_upt_less: "p \<in> set (select msk [0..<n]) \<Longrightarrow> p < n"
  by (simp add: set_select_upt)

lemma index_columns_exact:
  assumes sh: "shape features = F # shape msk"
    and wf: "length (data features) = F * prod_list (shape msk)"
  shows "index_columns features msk =
     Inr \<lparr>dtype = dtype features,
          shape = [F, length (select (data msk) [0..<prod_list (shape msk)])],
          data = concat (map (\<lambda>f. map (\<lambda>p. data features ! (f * prod_list (shape msk) + p))
                                     (select (data msk) [0..<prod_list (shape msk)]))
                          [0..<F])\<rparr>"
proof -
  let ?N = "prod_list (shape msk)"
  let ?picked = "select (data msk) [0..<?N]"
  have block: "take (Suc 0) (drop (f * ?N + p) (data features)) = [data features ! (f * ?N + p)]"
    if "f < F" "p \<in> set ?picked" for f p
  proof -
    have "p < ?N" using that(2) by (rule select_upt_less)
    moreover have "Suc f * ?N \<le> F * ?N" using that(1) by (intro mult_le_mono1) simp
    ultimately have "f * ?N + p < length (data features)" using wf by simp
    thus ?thesis by (simp add: take_Suc_conv_app_nth hd_drop_conv_nth take_Suc)
  qed
  have inner: "map (\<lambda>p. take (Suc 0) (drop (f * ?N + p) (data features))) ?picked
             = map (\<lambda>p. [data features ! (f * ?N + p)]) ?picked" if "f < F" for f
    by (rule map_cong) (simp_all add: block[OF that])
  have "concat (map (\<lambda>f. concat (map (\<lambda>p. take (Suc 0) (drop (f * ?N + p) (data features))) ?picked)) [0..<F])
      = concat (map (\<lambda>f. map (\<lambda>p. data features ! (f * ?N + p)) ?picked) [0..<F])"
  proof -
    have "map (\<lambda>f. concat (map (\<lambda>p. take (Suc 0) (drop (f * ?N + p) (data features))) ?picked)) [0..<F]
        = map (\<lambda>f. map (\<lambda>p. data features ! (f * ?N + p)) ?picked) [0..<F]"
    proof (rule map_cong[OF refl])
      fix f assume "f \<in> set [0..<F]"
      hence "f < F" by simp
      show "concat (map (\<lambda>p. take (Suc 0) (drop (f * ?N + p) (data features))) ?picked)
          = map (\<lambda>p. data features ! (f * ?N + p)) ?picked"
        unfolding inner[OF \<open>f < F\<close>] by (rule concat_singletons)
    qed
    thus ?thesis by (rule arg_cong)
  qed
  thus ?thesis using sh by (simp add: index_columns_def ndim_def Let_def)
qed

lemma rows_of_columns:
  assumes sh: "shape features = F # shape msk"
    and wf: "length (data features) = F * prod_list (shape msk)"
    and ic: "index_columns features msk = Inr cols"
  shows "rows_of (np_T cols) = map (pixel_row features) (select (data msk) [0..<prod_list (shape msk)])"
    and "shape (np_T cols) = [length (select (data msk) [0..<prod_list (shape msk)]), F]"
proof -
  let ?N = "prod_list (shape msk)"
  let ?picked = "select (data msk) [0..<?N]"
  let ?k = "length ?picked"
  let ?h = "\<lambda>f j. data features ! (f * ?N + ?picked ! j)"
  have cols: "cols = \<lparr>dtype = dtype features, shape = [F, ?k],
          data = concat (map (\<lambda>f. map (\<lambda>p. data features ! (f * ?N + p)) ?picked) [0..<F])\<rparr>"
    using index_columns_exact[OF sh wf] ic by simp
  have d: "data cols = map (\<lambda>i. ?h (i div ?k) (i mod ?k)) [0..<F * ?k]"
  proof -
    have "map (\<lambda>p. data features ! (f * ?N + p)) ?picked = map (?h f) [0..<?k]" for f
      by (rule map_via_nth)
    hence "data cols = concat (map (\<lambda>f. map (?h f) [0..<?k]) [0..<F])"
      unfolding cols by simp
    thus ?thesis by (simp only: concat_map_upt)
  qed
  have shc: "shape cols = [F, ?k]" and len: "length (data cols) = F * ?k"
    using d by (simp_all add: cols)
  show "shape (np_T cols) = [?k, F]" using shc by (simp add: np_T_def)
  have nth: "data cols ! (f * ?k + j) = ?h f j" if "f < F" "j < ?k" for f j
  proof -
    have "Suc f * ?k \<le> F * ?k" using that(1) by (intro mult_le_mono1) simp
    hence lt: "f * ?k + j < F * ?k" using that(2) by simp
    have "data cols ! (f * ?k + j) = ?h ((f * ?k + j) div ?k) ((f * ?k + j) mod ?k)"
      unfolding d using lt by (simp only: nth_map length_upt nth_upt diff_zero add_0)
    thus ?thesis by (simp only: div_mod_block[OF that(2)])
  qed
  have "rows_of (np_T cols) = map (\<lambda>j. map (\<lambda>f. data cols ! (f * ?k + j)) [0..<F]) [0..<?k]"
    by (rule rows_of_np_T[OF shc len])
  also have "\<dots> = map (\<lambda>j. map (\<lambda>f. ?h f j) [0..<F]) [0..<?k]"
    by (intro map_cong refl) (simp add: nth)
  also have "\<dots> = map (\<lambda>j. pixel_row features (?picked ! j)) [0..<?k]"
    using sh by (simp add: pixel_row_def)
  also have "\<dots> = map (pixel_row features) ?picked"
    by (rule map_via_nth[symmetric])
  finally show "rows_of (np_T cols) = map (pixel_row features) ?picked" .
qed


lemma length_fill_where: "length (fill_where msk xs vs) = length xs"
  by (induction msk xs vs rule: fill_where.induct) (auto split: list.splits)

lemma fill_where_unselected:
  assumes "p < length xs" and "p < length msk \<longrightarrow> \<not> msk ! p"
  shows "fill_where msk xs vs ! p = xs ! p"
  using assms
proof (induction msk xs vs arbitrary: p rule: fill_where.induct)
  case (1 m ms x xs vs)
  show ?case
  proof (cases p)
    case 0
    thus ?thesis using "1.prems" by (auto split: list.splits)
  next
    case (Suc q)
    hence q: "q < length xs" "q < length ms \<longrightarrow> \<not> ms ! q" using "1.prems" by auto
    show ?thesis
    proof (cases m)
      case True
      show ?thesis
      proof (cases vs)
        case Nil
        thus ?thesis using True Suc "1.IH"(1)[OF True Nil q] by simp
      next
        case (Cons v vs')
        thus ?thesis using True Suc "1.IH"(2)[OF True Cons q] by simp
      qed
    next
      case False
      thus ?thesis using Suc "1.IH"(3)[OF False q] by simp
    qed
  qed
qed simp_all

lemma select_fill_where:
  assumes "length msk = length xs" and "length vs = length (filter id msk)"
  shows "select msk (fill_where msk xs vs) = vs"
  using assms
proof (induction msk xs vs rule: fill_where.induct)
  case (1 m ms x xs vs)
  show ?case
  proof (cases m)
    case True
    then obtain v vs' where vs: "vs = v # vs'" using "1.prems"(2) by (cases vs) auto
    have "select ms (fill_where ms xs vs') = vs'"
      using "1.IH"(2)[OF True vs] "1.prems" True vs by simp
    thus ?thesis using True vs by (simp add: select_def)
  next
    case False
    have "select ms (fill_where ms xs vs) = vs"
      using "1.IH"(3)[OF False] "1.prems" False by simp
    thus ?thesis using False by (simp add: select_def)
  qed
qed (simp_all add: select_def)

lemma assign_mask_result:
  assumes "assign_mask output msk values = Inr out"
    and "length (data msk) = length (data output)"
  shows "shape out = shape output" and "dtype out = dtype output"
    and "length (data out) = length (data output)"
    and "\<forall>p < length (data output). \<not> data msk ! p \<longrightarrow> data out ! p = data output ! p"
    and "select (data msk) (data out) =
           (if length (data values) = length (filter id (data msk)) then data values
            else replicate (length (filter id (data msk))) (hd (data values)))"
proof -
  let ?n = "length (filter id (data msk))"
  let ?vs = "if length (data values) = ?n then data values else replicate ?n (hd (data values))"
  have out: "out = output\<lparr>data := fill_where (data msk) (data output) ?vs\<rparr>"
    using assms(1) by (auto simp: assign_mask_def Let_def split: if_splits)
  show "shape out = shape output" "dtype out = dtype output" by (simp_all add: out)
  show "length (data out) = length (data output)" by (simp add: out length_fill_where)
  show "\<forall>p < length (data output). \<not> data msk ! p \<longrightarrow> data out ! p = data output ! p"
    by (simp add: out fill_where_unselected)
  have "length ?vs = ?n" by simp
  from select_fill_where[OF assms(2) this]
  show "select (data msk) (data out) = ?vs" by (simp add: out)
qed

lemma fit_segmenter_Inr:
  assumes "fit_segmenter h labels_ref features clf = Inr (h', output_ref, clf')"
  obtains cols fitted cols0 predicted_labels outp where
    "labels_ref < length h"
    "index_columns features (greater_zero (h ! labels_ref)) = Inr cols"
    "clf_fit clf (clf_state clf) (np_T cols)
        (index_mask (h ! labels_ref) (greater_zero (h ! labels_ref))) = Inr fitted"
    "clf' = clf\<lparr>clf_state := fitted\<rparr>"
    "index_columns features (equal_zero (h ! labels_ref)) = Inr cols0"
    "clf_predict clf fitted (np_T cols0) = Inr predicted_labels"
    "assign_mask (h ! labels_ref) (equal_zero (h ! labels_ref)) predicted_labels = Inr outp"
    "output_ref = length h"
    "h' = h @ [outp]"
  using assms
  by (auto simp: fit_segmenter_def Let_def nth_append split: if_splits sum.splits)

lemma upt3: "[0..<3] = [0, Suc 0, 2]" by (simp add: upt_rec numeral_3_eq_3)

lemma upt2: "[0..<2] = [0, Suc 0]" by (simp add: upt_rec)



lemma eval_fit:
  "fit_segmenter [marked_labels] 0 distinct_features lookup_classifier
    = Inr ([marked_labels, \<lparr>dtype = Int64, shape = [3], data = [1, 2, 1]\<rparr>], 1,
           lookup_classifier\<lparr>clf_state := Some [([5], 1), ([6], 2)]\<rparr>)"
  by (simp add: fit_segmenter_def index_columns_def greater_zero_def equal_zero_def
        marked_labels_def distinct_features_def index_mask_def assign_mask_def
        lookup_classifier_def rows_of_def np_T_def
        ndim_def select_def upt3 upt2 Let_def)

lemma fit_segmenter_returns:
  assumes l: "labels_ref < length h"
    and sh: "shape features = F # shape (h ! labels_ref)"
    and wf: "length (data features) = F * prod_list (shape (h ! labels_ref))"
    and wfl: "length (data (h ! labels_ref)) = prod_list (shape (h ! labels_ref))"
    and fitok: "\<forall>X y. \<exists>st. clf_fit clf (clf_state clf) X y = Inr st"
    and predok: "\<forall>X y st. clf_fit clf (clf_state clf) X y = Inr st \<longrightarrow>
                   (\<forall>X'. ndim X' = 2 \<longrightarrow>
                      (\<exists>pr. clf_predict clf st X' = Inr pr \<and> ndim pr \<le> 1 \<and>
                            length (data pr) = hd (shape X')))"
  shows "\<exists>h' clf'. fit_segmenter h labels_ref features clf = Inr (h', length h, clf')"
proof -
  define labels where "labels = h ! labels_ref"
  let ?N = "prod_list (shape labels)"
  have sh1: "shape features = F # shape (greater_zero labels)"
    and sh0: "shape features = F # shape (equal_zero labels)"
    using sh by (simp_all add: greater_zero_def equal_zero_def labels_def)
  have wf1: "length (data features) = F * prod_list (shape (greater_zero labels))"
    and wf0: "length (data features) = F * prod_list (shape (equal_zero labels))"
    using wf by (simp_all add: greater_zero_def equal_zero_def labels_def)
  from index_columns_exact[OF sh1 wf1] obtain cols where
    cols: "index_columns features (greater_zero labels) = Inr cols" by blast
  from index_columns_exact[OF sh0 wf0] obtain cols0 where
    cols0: "index_columns features (equal_zero labels) = Inr cols0" by blast
  from fitok obtain fitted where
    fitted: "clf_fit clf (clf_state clf) (np_T cols) (index_mask labels (greater_zero labels)) = Inr fitted"
    by blast
  have shT: "shape (np_T cols0) = [length (select (data (equal_zero labels))
           [0..<prod_list (shape (equal_zero labels))]), F]"
    by (rule rows_of_columns(2)[OF sh0 wf0 cols0])
  hence "ndim (np_T cols0) = 2" by (simp add: ndim_def)
  with predok fitted obtain pr where
    pr: "clf_predict clf fitted (np_T cols0) = Inr pr" "ndim pr \<le> 1"
      "length (data pr) = hd (shape (np_T cols0))" by blast
  note shT
  moreover have "length (select (data (equal_zero labels)) [0..<prod_list (shape (equal_zero labels))])
      = length (filter id (data (equal_zero labels)))"
    by (rule length_select_count) (simp add: equal_zero_def wfl[folded labels_def])
  ultimately have n: "length (data pr) = length (filter id (data (equal_zero labels)))"
    using pr(3) by simp
  have "\<exists>outp. assign_mask labels (equal_zero labels) pr = Inr outp"
    using pr(2) n by (simp add: assign_mask_def Let_def)
  then obtain outp where outp: "assign_mask labels (equal_zero labels) pr = Inr outp" by blast
  have "fit_segmenter h labels_ref features clf
      = Inr ((h @ [labels])[length h := outp], length h, clf\<lparr>clf_state := fitted\<rparr>)"
    using l cols cols0 fitted pr(1) outp
    by (simp add: fit_segmenter_def Let_def labels_def[symmetric] nth_append)
  thus ?thesis by blast
qed

lemma fit_segmenter_properties:
  assumes fit: "fit_segmenter h labels_ref features clf = Inr (h', output_ref, clf')"
  shows "labels_ref < length h \<and> output_ref = length h \<and> length h' = Suc (length h) \<and>
      (\<forall>r < length h. h' ! r = h ! r) \<and>
      shape (h' ! output_ref) = shape (h ! labels_ref) \<and>
      dtype (h' ! output_ref) = dtype (h ! labels_ref) \<and>
      length (data (h' ! output_ref)) = length (data (h ! labels_ref)) \<and>
      (\<forall>p < length (data (h ! labels_ref)).
          data (h ! labels_ref) ! p \<noteq> 0 \<longrightarrow>
          data (h' ! output_ref) ! p = data (h ! labels_ref) ! p) \<and>
      (\<exists>cols0 predicted.
          index_columns features (equal_zero (h ! labels_ref)) = Inr cols0 \<and>
          clf_predict clf' (clf_state clf') (np_T cols0) = Inr predicted \<and>
          select (data (equal_zero (h ! labels_ref))) (data (h' ! output_ref)) =
            (if length (data predicted) = length (filter (\<lambda>v. v = 0) (data (h ! labels_ref)))
             then data predicted
             else replicate (length (filter (\<lambda>v. v = 0) (data (h ! labels_ref))))
                    (hd (data predicted))))"
proof -
  define labels where "labels = h ! labels_ref"
  from fit obtain cols fitted cols0 predicted_labels outp where
    l: "labels_ref < length h" and
    c': "clf' = clf\<lparr>clf_state := fitted\<rparr>" and
    c0: "index_columns features (equal_zero labels) = Inr cols0" and
    pr: "clf_predict clf fitted (np_T cols0) = Inr predicted_labels" and
    am: "assign_mask labels (equal_zero labels) predicted_labels = Inr outp" and
    o: "output_ref = length h" and h': "h' = h @ [outp]"
    unfolding labels_def by (rule fit_segmenter_Inr)
  have lenm: "length (data (equal_zero labels)) = length (data labels)"
    by (simp add: equal_zero_def)
  note R = assign_mask_result[OF am lenm]
  have cnt: "length (filter id (data (equal_zero labels))) = length (filter (\<lambda>v. v = 0) (data labels))"
    by (simp add: equal_zero_def filter_map comp_def)
  have out: "h' ! output_ref = outp" by (simp add: h' o)
  have keep: "\<forall>p < length (data labels). data labels ! p \<noteq> 0 \<longrightarrow> data outp ! p = data labels ! p"
    using R(4) by (simp add: equal_zero_def)
  have old: "\<forall>r < length h. h' ! r = h ! r" by (simp add: h' nth_append)
  have pr': "clf_predict clf' (clf_state clf') (np_T cols0) = Inr predicted_labels"
    using pr by (simp add: c')
  have sel: "select (data (equal_zero labels)) (data outp) =
            (if length (data predicted_labels) = length (filter (\<lambda>v. v = 0) (data labels))
             then data predicted_labels
             else replicate (length (filter (\<lambda>v. v = 0) (data labels))) (hd (data predicted_labels)))"
    using R(5) unfolding cnt .
  show ?thesis
    unfolding labels_def[symmetric] out
    using l o old R(1,2,3) keep c0 pr' sel by (auto simp: h')
qed




lemma lookup_classifier_total:
  "(\<forall>X y. \<exists>st. clf_fit lookup_classifier (clf_state lookup_classifier) X y = Inr st) \<and>
   (\<forall>X y st. clf_fit lookup_classifier (clf_state lookup_classifier) X y = Inr st \<longrightarrow>
       (\<forall>X'. ndim X' = 2 \<longrightarrow>
          (\<exists>pr. clf_predict lookup_classifier st X' = Inr pr \<and> ndim pr \<le> 1 \<and>
                length (data pr) = hd (shape X'))))"
proof -
  have "length (rows_of X') = hd (shape X')" if "ndim X' = 2" for X' :: "real ndarray"
  proof -
    from that obtain n F where "shape X' = [n, F]"
      by (cases "shape X'"; cases "tl (shape X')") (auto simp: ndim_def)
    thus ?thesis by (simp add: rows_of_def)
  qed
  thus ?thesis by (auto simp: lookup_classifier_def ndim_def)
qed











section \<open>C4: the number, the spacing and the order of the scales\<close>







section \<open>C1: the shape of the feature stack of a two-dimensional image\<close>

text \<open>
  C1. For a single-channel image of shape \<open>(H, W)\<close> with \<open>H \<ge> 2\<close> and \<open>W \<ge> 2\<close>,
  all three flags enabled, bounds \<open>0 < sigma_min \<le> sigma_max\<close>, a usable pool and
  filters that keep shapes, \<open>multiscale_basic_features\<close> returns an array of shape
  \<open>(F, H, W)\<close> with \<open>F = n_scales * (1 + 1 + 2)\<close>, where \<open>n_scales\<close> is the length of
  the scale sequence, and of dtype 32-bit float. The claim as stated speaks of every
  image of shape \<open>(H, W)\<close>; for an image with a single row the texture raises
  ValueError, since \<^verbatim>\<open>np.gradient\<close> needs two elements along every axis.
\<close>

theorem features_shape_2d:
  assumes "shape_preserving B"
    and "shape img = [H, W]" and "2 \<le> H" and "2 \<le> W"
    and "0 < sigma_min" and "sigma_min \<le> sigma_max"
    and "pool_ok has_dask num_workers"
  shows "\<exists>out scales. multiscale_basic_features B has_dask picks img multichannel True True True
             sigma_min sigma_max num_workers = Inr out \<and>
           sigmas sigma_min sigma_max = Inr scales \<and>
           shape out = [length scales * (1 + 1 + 2), H, W] \<and> dtype out = Float32"
  using assms by (rule features_2d)

theorem features_shape_2d_witness:
  "\<exists>out scales. multiscale_basic_features identity_backend False (\<lambda>ch. []) example_image True
             True True True (1 / 2) 16 None = Inr out \<and>
           sigmas (1 / 2) 16 = Inr scales \<and>
           shape out = [length scales * (1 + 1 + 2), 2, 2] \<and> dtype out = Float32"
  using features_shape_2d[of identity_backend example_image 2 2 "1 / 2" 16 False None
      "\<lambda>ch. []" True]
  by (simp add: identity_backend_shape_preserving example_image_def pool_ok_def)

theorem features_shape_thin_image_counterexample:
  "multiscale_basic_features identity_backend False (\<lambda>ch. []) thin_image False
      True True True (1 / 2) 16 None = Inl ValueError"
  by (rule features_too_small[OF identity_backend_shape_preserving, of thin_image 1 3])
     (simp_all add: thin_image_def)

section \<open>C2: the order of the stack does not depend on the run\<close>

text \<open>
  C2. For every image and every setting of the flags, a run with one worker returns a
  feature stack exactly when a run with eight workers does, whatever the orders in which
  the tasks of the two runs finish, and the two stacks are equal. The stack is in the
  canonical order: channels ascending, for each channel the scales in the descending
  order of the scale sequence, for each scale intensity, edges, eigenvalues of the
  texture.
\<close>

theorem features_independent_of_run:
  "(multiscale_basic_features B has_dask picks1 img multichannel intensity edges texture
       sigma_min sigma_max (Some 1) = Inr out \<longleftrightarrow>
    multiscale_basic_features B has_dask picks2 img multichannel intensity edges texture
       sigma_min sigma_max (Some 8) = Inr out) \<and>
   (multiscale_basic_features B has_dask picks1 img multichannel intensity edges texture
       sigma_min sigma_max (Some 1) = Inr out \<longrightarrow>
    np_array_float32 (canonical_order B img multichannel (scales_of sigma_min sigma_max)
       intensity edges texture) = Inr out)"
proof -
  have "pool_ok has_dask (Some 1) \<longleftrightarrow> pool_ok has_dask (Some 8)" by (simp add: pool_ok_def)
  from multiscale_picks_workers[OF this, of B picks1 img multichannel intensity edges texture
      sigma_min sigma_max out picks2]
    multiscale_is_canonical[of B has_dask picks1 img multichannel intensity edges texture
      sigma_min sigma_max "Some 1" out]
  show ?thesis by simp
qed

theorem features_independent_of_run_witness:
  "\<exists>out. multiscale_basic_features identity_backend False (\<lambda>ch. []) example_image False
             True True True (1 / 2) 16 (Some 1) = Inr out \<and>
          multiscale_basic_features identity_backend False (\<lambda>ch. [5, 3, 0, 2]) example_image False
             True True True (1 / 2) 16 (Some 8) = Inr out \<and>
          np_array_float32 (canonical_order identity_backend example_image False
             (scales_of (1 / 2) 16) True True True) = Inr out"
proof -
  have "pool_ok False (Some 1)" by (simp add: pool_ok_def)
  from features_2d[OF identity_backend_shape_preserving, of example_image 2 2 "1 / 2" 16
      False "Some 1" "\<lambda>ch. []" False, OF _ _ _ _ _ this]
  obtain out where out: "multiscale_basic_features identity_backend False (\<lambda>ch. []) example_image
      False True True True (1 / 2) 16 (Some 1) = Inr out"
    by (auto simp: example_image_def)
  from features_independent_of_run[of identity_backend False "\<lambda>ch. []" example_image False
      True True True "1 / 2" 16 out "\<lambda>ch. [5, 3, 0, 2]"] out
  show ?thesis by blast
qed

section \<open>C10: the multichannel flag on an image without a channel axis\<close>

text \<open>
  C10. With \<open>multichannel = True\<close> and an image of fewer than three dimensions,
  \<open>multiscale_basic_features\<close> returns what it returns with \<open>multichannel = False\<close>:
  the image is processed as one channel by a single call of the single-channel
  function, the last axis is not split, and the flag raises no error (a square image of
  two dimensions gives a stack).
\<close>

theorem multichannel_flag_without_channel_axis:
  assumes "ndim img < 3"
  shows "multiscale_basic_features B has_dask picks img True intensity edges texture
             sigma_min sigma_max num_workers =
         multiscale_basic_features B has_dask picks img False intensity edges texture
             sigma_min sigma_max num_workers \<and>
         multiscale_basic_features B has_dask picks img True intensity edges texture
             sigma_min sigma_max num_workers =
         (case mutiscale_basic_features_singlechannel B has_dask (picks 0) img
                 intensity edges texture sigma_min sigma_max num_workers of
            Inl e \<Rightarrow> Inl e
          | Inr features \<Rightarrow> np_array_float32 features) \<and>
         (shape_preserving B \<and> shape img = [H, W] \<and> 2 \<le> H \<and> 2 \<le> W \<and>
          0 < sigma_min \<and> sigma_min \<le> sigma_max \<and> pool_ok has_dask num_workers \<longrightarrow>
          (\<exists>out scales. multiscale_basic_features B has_dask picks img True True True True
                 sigma_min sigma_max num_workers = Inr out \<and>
               sigmas sigma_min sigma_max = Inr scales \<and>
               shape out = [length scales * 4, H, W]))"
proof (intro conjI impI)
  show "multiscale_basic_features B has_dask picks img True intensity edges texture
             sigma_min sigma_max num_workers =
         multiscale_basic_features B has_dask picks img False intensity edges texture
             sigma_min sigma_max num_workers"
    unfolding multiscale_single_path[OF assms] ..
  show "multiscale_basic_features B has_dask picks img True intensity edges texture
             sigma_min sigma_max num_workers =
         (case mutiscale_basic_features_singlechannel B has_dask (picks 0) img
                 intensity edges texture sigma_min sigma_max num_workers of
            Inl e \<Rightarrow> Inl e
          | Inr features \<Rightarrow> np_array_float32 features)"
    by (rule multiscale_single_path[OF assms])
  assume "shape_preserving B \<and> shape img = [H, W] \<and> 2 \<le> H \<and> 2 \<le> W \<and>
          0 < sigma_min \<and> sigma_min \<le> sigma_max \<and> pool_ok has_dask num_workers"
  hence "\<exists>out scales. multiscale_basic_features B has_dask picks img True True True True
                 sigma_min sigma_max num_workers = Inr out \<and>
               sigmas sigma_min sigma_max = Inr scales \<and>
               shape out = [length scales * (1 + 1 + 2), H, W] \<and> dtype out = Float32"
    by (intro features_2d) auto
  thus "\<exists>out scales. multiscale_basic_features B has_dask picks img True True True True
                 sigma_min sigma_max num_workers = Inr out \<and>
               sigmas sigma_min sigma_max = Inr scales \<and>
               shape out = [length scales * 4, H, W]" by auto
qed

theorem multichannel_flag_without_channel_axis_witness:
  "multiscale_basic_features identity_backend False (\<lambda>ch. []) example_image True True True True
       (1 / 2) 16 None =
   multiscale_basic_features identity_backend False (\<lambda>ch. []) example_image False True True True
       (1 / 2) 16 None \<and>
   (\<exists>out scales. multiscale_basic_features identity_backend False (\<lambda>ch. []) example_image True
        True True True (1 / 2) 16 None = Inr out \<and>
      sigmas (1 / 2) 16 = Inr scales \<and> shape out = [length scales * 4, 2, 2])"
proof -
  have nd: "ndim example_image < 3" by (simp add: ndim_def example_image_def)
  have hyp: "shape_preserving identity_backend \<and> shape example_image = [2, 2] \<and>
      (2::nat) \<le> 2 \<and> (2::nat) \<le> 2 \<and> (0::real) < 1 / 2 \<and> (1 / 2 :: real) \<le> 16 \<and>
      pool_ok False None"
    by (simp add: identity_backend_shape_preserving example_image_def pool_ok_def)
  from multichannel_flag_without_channel_axis[OF nd, of identity_backend False "\<lambda>ch. []"
      True True True "1 / 2" 16 None 2 2] hyp
  show ?thesis by blast
qed

section \<open>C8: bounds outside the documented range\<close>




section \<open>C3: the eigenvalues of the Hessian in ascending order\<close>



section \<open>C5: the labelled pixels and the input array after fit_segmenter\<close>

text \<open>
  C5. Whenever \<open>fit_segmenter\<close> returns, its output is a new array, a copy of the
  labels in shape, dtype and size, in which every pixel whose label is not 0 keeps its
  label, and the pixels of label 0 hold the predictions of the fitted classifier, in
  order (a single prediction is written to all of them). Every array that was on the
  heap, the labels among them, is unchanged. It returns whenever the stack has the shape
  \<open>(F, *S)\<close> of the labels, the classifier's \<open>fit\<close> succeeds and its \<open>predict\<close>
  returns one label per row.
\<close>

theorem fit_segmenter_keeps_labels:
  "(fit_segmenter h labels_ref features clf = Inr (h', output_ref, clf') \<longrightarrow>
      labels_ref < length h \<and> output_ref = length h \<and> length h' = Suc (length h) \<and>
      (\<forall>r < length h. h' ! r = h ! r) \<and>
      shape (h' ! output_ref) = shape (h ! labels_ref) \<and>
      dtype (h' ! output_ref) = dtype (h ! labels_ref) \<and>
      length (data (h' ! output_ref)) = length (data (h ! labels_ref)) \<and>
      (\<forall>p < length (data (h ! labels_ref)).
          data (h ! labels_ref) ! p \<noteq> 0 \<longrightarrow>
          data (h' ! output_ref) ! p = data (h ! labels_ref) ! p) \<and>
      (\<exists>cols0 predicted.
          index_columns features (equal_zero (h ! labels_ref)) = Inr cols0 \<and>
          clf_predict clf' (clf_state clf') (np_T cols0) = Inr predicted \<and>
          select (data (equal_zero (h ! labels_ref))) (data (h' ! output_ref)) =
            (if length (data predicted) = length (filter (\<lambda>v. v = 0) (data (h ! labels_ref)))
             then data predicted
             else replicate (length (filter (\<lambda>v. v = 0) (data (h ! labels_ref))))
                    (hd (data predicted))))) \<and>
   (labels_ref < length h \<and>
    shape features = F # shape (h ! labels_ref) \<and>
    length (data features) = F * prod_list (shape (h ! labels_ref)) \<and>
    length (data (h ! labels_ref)) = prod_list (shape (h ! labels_ref)) \<and>
    (\<forall>X y. \<exists>st. clf_fit clf (clf_state clf) X y = Inr st) \<and>
    (\<forall>X y st. clf_fit clf (clf_state clf) X y = Inr st \<longrightarrow>
       (\<forall>X'. ndim X' = 2 \<longrightarrow>
          (\<exists>pr. clf_predict clf st X' = Inr pr \<and> ndim pr \<le> 1 \<and>
                length (data pr) = hd (shape X')))) \<longrightarrow>
    (\<exists>h'' clf''. fit_segmenter h labels_ref features clf = Inr (h'', length h, clf'')))"
proof (intro conjI impI)
  assume "labels_ref < length h \<and>
    shape features = F # shape (h ! labels_ref) \<and>
    length (data features) = F * prod_list (shape (h ! labels_ref)) \<and>
    length (data (h ! labels_ref)) = prod_list (shape (h ! labels_ref)) \<and>
    (\<forall>X y. \<exists>st. clf_fit clf (clf_state clf) X y = Inr st) \<and>
    (\<forall>X y st. clf_fit clf (clf_state clf) X y = Inr st \<longrightarrow>
       (\<forall>X'. ndim X' = 2 \<longrightarrow>
          (\<exists>pr. clf_predict clf st X' = Inr pr \<and> ndim pr \<le> 1 \<and>
                length (data pr) = hd (shape X'))))"
  thus "\<exists>h'' clf''. fit_segmenter h labels_ref features clf = Inr (h'', length h, clf'')"
    by (intro fit_segmenter_returns) (elim conjE, assumption)+
qed (use fit_segmenter_properties[of h labels_ref features clf h' output_ref clf'] in blast)+

theorem fit_segmenter_keeps_labels_witness:
  "fit_segmenter [marked_labels] 0 distinct_features lookup_classifier
     = Inr ([marked_labels, \<lparr>dtype = Int64, shape = [3], data = [1, 2, 1]\<rparr>], 1,
            lookup_classifier\<lparr>clf_state := Some [([5], 1), ([6], 2)]\<rparr>) \<and>
   [marked_labels, \<lparr>dtype = Int64, shape = [3], data = [1, 2, 1]\<rparr>] ! 0 = marked_labels \<and>
   data ([marked_labels, \<lparr>dtype = Int64, shape = [3], data = [1, 2, 1]\<rparr>] ! 1) ! 0
     = data marked_labels ! 0 \<and>
   data ([marked_labels, \<lparr>dtype = Int64, shape = [3], data = [1, 2, 1]\<rparr>] ! 1) ! 1
     = data marked_labels ! 1 \<and>
   (\<exists>h'' clf''. fit_segmenter [marked_labels] 0 twin_features lookup_classifier
        = Inr (h'', length [marked_labels], clf''))"
proof -
  note T = fit_segmenter_keeps_labels[of "[marked_labels]" 0 distinct_features lookup_classifier
      "[marked_labels, \<lparr>dtype = Int64, shape = [3], data = [1, 2, 1]\<rparr>]" 1
      "lookup_classifier\<lparr>clf_state := Some [([5], 1), ([6], 2)]\<rparr>" 1,
      THEN conjunct1, rule_format, OF eval_fit]
  have a: "\<forall>p < length (data ([marked_labels] ! 0)). data ([marked_labels] ! 0) ! p \<noteq> 0 \<longrightarrow>
       data ([marked_labels, \<lparr>dtype = Int64, shape = [3], data = [1, 2, 1]\<rparr>] ! 1) ! p
         = data ([marked_labels] ! 0) ! p"
    using T by (elim conjE)
  have hyp: "0 < length [marked_labels] \<and>
    shape twin_features = 1 # shape ([marked_labels] ! 0) \<and>
    length (data twin_features) = 1 * prod_list (shape ([marked_labels] ! 0)) \<and>
    length (data ([marked_labels] ! 0)) = prod_list (shape ([marked_labels] ! 0))"
    by (simp add: twin_features_def marked_labels_def)
  note U = fit_segmenter_keeps_labels[of "[marked_labels]" 0 twin_features lookup_classifier
      "[]" 0 lookup_classifier 1, THEN conjunct2, rule_format]
  have b: "\<exists>h'' clf''. fit_segmenter [marked_labels] 0 twin_features lookup_classifier
        = Inr (h'', length [marked_labels], clf'')"
    by (rule U) (use hyp lookup_classifier_total in blast)
  have l: "(0::nat) < length (data ([marked_labels] ! 0))" "(1::nat) < length (data ([marked_labels] ! 0))"
    "data ([marked_labels] ! 0) ! 0 \<noteq> 0" "data ([marked_labels] ! 0) ! 1 \<noteq> 0"
    by (simp_all add: marked_labels_def)
  have a0: "data ([marked_labels, \<lparr>dtype = Int64, shape = [3], data = [1, 2, 1]\<rparr>] ! 1) ! 0
     = data marked_labels ! 0"
    using a[rule_format, OF l(1) l(3)] by simp
  have a1: "data ([marked_labels, \<lparr>dtype = Int64, shape = [3], data = [1, 2, 1]\<rparr>] ! 1) ! 1
     = data marked_labels ! 1"
    using a[rule_format, OF l(2) l(4)] by simp
  show ?thesis using eval_fit a0 a1 b by (intro conjI) simp_all
qed

section \<open>C7: predict_segmenter and the classifier that is not fitted\<close>



section \<open>C6: fit_segmenter followed by predict_segmenter\<close>




section \<open>C9: the cached features of the segmenter\<close>




end
